theory Spec2Isabelle
  imports Main
begin

section \<open>Data model\<close>

text \<open>
  The driver \<^verbatim>\<open>FutureGraphAction\<close> of
  \<^verbatim>\<open>taskflow/engines/action_engine/graph_action.py\<close> works on the nodes of a
  flow graph. It tells three kinds of node apart with \<^verbatim>\<open>isinstance\<close>: a task
  (\<^verbatim>\<open>task.BaseTask\<close>), a retry controller (\<^verbatim>\<open>r.Retry\<close>) and anything else.
  A node is known to the storage by its name.
\<close>

datatype atom = BaseTask (name: string) | Retry (name: string) | UnknownNode (name: string)

text \<open>
  The constants of \<^verbatim>\<open>taskflow.states\<close> that the driver reads, writes or yields.
  They are strings in the source; a state the driver never names is \<open>OtherState\<close>.
\<close>

datatype state =
    PENDING | RUNNING | REVERTING | RETRYING | SUCCESS | FAILURE
  | SUSPENDED | REVERTED | RESUMING | SCHEDULING | WAITING | ANALYZING
  | OtherState string

text \<open>The intentions \<^verbatim>\<open>st.EXECUTE\<close>, \<^verbatim>\<open>st.REVERT\<close>, \<^verbatim>\<open>st.RETRY\<close>; any other
  stored value is \<open>OtherIntention\<close>.\<close>

datatype intention = EXECUTE | REVERT | RETRY | OtherIntention string

text \<open>The events \<^verbatim>\<open>ex.EXECUTED\<close> and \<^verbatim>\<open>ex.REVERTED\<close> a future resolves with.\<close>

datatype event = ex_EXECUTED | ex_REVERTED

text \<open>The answers of a retry controller: \<^verbatim>\<open>r.RETRY\<close>, \<^verbatim>\<open>r.REVERT\<close>,
  \<^verbatim>\<open>r.REVERT_ALL\<close>; the \<^verbatim>\<open>if/elif\<close> chain of
  \<^verbatim>\<open>_process_atom_failure\<close> has no \<^verbatim>\<open>else\<close>, so any other answer is kept
  as \<open>r_unknown\<close>.\<close>

datatype decision = r_RETRY | r_REVERT | r_REVERT_ALL | r_unknown string

text \<open>
  Exceptions. \<open>TypeError\<close> and \<open>ExecutionFailure\<close> are the two the driver raises
  itself; \<open>RecursionError\<close> is what Python raises when the recursion of
  \<^verbatim>\<open>_process_atom_failure\<close> exceeds the interpreter's limit; \<open>External\<close> is an
  exception raised by a collaborator; \<open>WrappedFailure\<close> is the aggregate of several
  failures. All of them are subclasses of \<^verbatim>\<open>Exception\<close>
  (\<^verbatim>\<open>excp.ExecutionFailure\<close> is declared outside this file; it is taken to be one,
  as every exception class of the package is).

  A \<^verbatim>\<open>misc.Failure\<close> is represented by the exception it captured.
\<close>

datatype error =
    TypeError atom
  | ExecutionFailure atom intention
  | RecursionError
  | External string
  | WrappedFailure "error list"

type_synonym failure = error

text \<open>What a future resolves with: a normal value or a \<^verbatim>\<open>misc.Failure\<close>.\<close>

datatype result = Value string | Failure failure

type_synonym future = nat

text \<open>
  The state the driver works on. The first four fields are the storage: the flow state,
  and per atom name the intention, the state and the last result. \<open>outside\<close> is whatever
  else the collaborators keep (the executor, the futures, the graph).
\<close>

record 'p world =
  flow_state :: state
  atom_intention :: "string \<Rightarrow> intention"
  atom_state :: "string \<Rightarrow> state"
  atom_result :: "string \<Rightarrow> result"
  outside :: 'p

text \<open>
  The collaborators whose code is not part of this file, as parameters of the driver:
  the analyzer's queries, the task and retry actions, the resolution of a future. The
  operations that submit work, complete a task or ask a retry controller may raise and
  may change the world; \<^verbatim>\<open>get_next_nodes\<close> and \<^verbatim>\<open>future.result()\<close> only read
  it but may raise, as the handlers around them in the source expect; the other queries
  over the graph and \<^verbatim>\<open>wait_for_any\<close>, which the source calls outside every
  handler, are total. A Python \<^verbatim>\<open>set\<close> is a list without duplicates, in the
  order the set is iterated.

  \<open>interfere m\<close> is what the consumer of the generator and the other threads do to the
  world while the generator is suspended at the \<^verbatim>\<open>yield\<close> of the marker \<open>m\<close>.
  \<open>recursion_limit\<close> is the number of nested activations of
  \<^verbatim>\<open>_process_atom_failure\<close> the interpreter allows.
\<close>

record 'p env =
  get_next_nodes :: "atom option \<Rightarrow> 'p world \<Rightarrow> error + atom list"
  find_atom_retry :: "atom \<Rightarrow> 'p world \<Rightarrow> atom option"
  iterate_subgraph :: "atom \<Rightarrow> 'p world \<Rightarrow> atom list"
  iterate_all_nodes :: "'p world \<Rightarrow> atom list"
  iterate_retries :: "state \<Rightarrow> 'p world \<Rightarrow> atom list"
  is_success :: "'p world \<Rightarrow> bool"
  schedule_execution :: "atom \<Rightarrow> 'p world \<Rightarrow> (error + future) \<times> 'p world"
  schedule_reversion :: "atom \<Rightarrow> 'p world \<Rightarrow> (error + future) \<times> 'p world"
  complete_execution :: "atom \<Rightarrow> result \<Rightarrow> 'p world \<Rightarrow> (error + unit) \<times> 'p world"
  complete_reversion :: "atom \<Rightarrow> result \<Rightarrow> 'p world \<Rightarrow> (error + unit) \<times> 'p world"
  wait_for_any :: "future list \<Rightarrow> nat \<Rightarrow> 'p world \<Rightarrow> (future list \<times> future list) \<times> 'p world"
  retry_execute :: "atom \<Rightarrow> 'p world \<Rightarrow> (error + future) \<times> 'p world"
  retry_revert :: "atom \<Rightarrow> 'p world \<Rightarrow> (error + future) \<times> 'p world"
  on_failure :: "atom \<Rightarrow> atom \<Rightarrow> result \<Rightarrow> 'p world \<Rightarrow> (error + decision) \<times> 'p world"
  future_result :: "future \<Rightarrow> 'p world \<Rightarrow> error + (atom \<times> event \<times> result)"
  interfere :: "state \<Rightarrow> 'p world \<Rightarrow> 'p world"
  recursion_limit :: nat

section \<open>Storage and state changes\<close>

text \<open>\<^verbatim>\<open>is_running\<close>: the stored flow state is \<^verbatim>\<open>st.RUNNING\<close>.\<close>

definition is_running :: "'p world \<Rightarrow> bool" where
  "is_running w = (flow_state w = RUNNING)"

text \<open>Modelled from the spec: \<^verbatim>\<open>storage.set_atom_intention\<close> is not part of this
  file; the State Store's \<^verbatim>\<open>setIntention(name, Intention)\<close> stores the intention
  under the name.\<close>

definition set_atom_intention :: "string \<Rightarrow> intention \<Rightarrow> 'p world \<Rightarrow> 'p world" where
  "set_atom_intention n i w = w\<lparr>atom_intention := (atom_intention w)(n := i)\<rparr>"

text \<open>Modelled from the spec: \<^verbatim>\<open>change_state\<close> of the task action and of the retry
  action are not part of this file; the proxies' \<^verbatim>\<open>setState\<close> is a synchronous
  mutation of the atom's stored state. The progress of a task is not modelled.\<close>

definition change_state :: "atom \<Rightarrow> state \<Rightarrow> 'p world \<Rightarrow> 'p world" where
  "change_state node s w = w\<lparr>atom_state := (atom_state w)(name node := s)\<rparr>"

text \<open>Modelled from the spec: \<^verbatim>\<open>analyzer.get_state\<close> is not part of this file; the
  Analyzer's \<^verbatim>\<open>stateOf(atom)\<close> is the atom's stored state.\<close>

definition get_state :: "atom \<Rightarrow> 'p world \<Rightarrow> state" where
  "get_state node w = atom_state w (name node)"

text \<open>\<^verbatim>\<open>set.add\<close> and \<^verbatim>\<open>set.update\<close> on a set kept as a duplicate-free list.\<close>

definition set_add :: "'a \<Rightarrow> 'a list \<Rightarrow> 'a list" where
  "set_add x xs = (if x \<in> set xs then xs else xs @ [x])"

definition set_update :: "'a list \<Rightarrow> 'a list \<Rightarrow> 'a list" where
  "set_update xs ys = fold set_add ys xs"

section \<open>Resetting and re-arming\<close>

text \<open>\<^verbatim>\<open>_reset_nodes\<close>: every node goes to \<^verbatim>\<open>PENDING\<close> and gets the intention;
  a node of unknown kind raises \<^verbatim>\<open>TypeError\<close> and leaves the rest untouched.\<close>

fun reset_nodes :: "atom list \<Rightarrow> intention \<Rightarrow> 'p world \<Rightarrow> (error + unit) \<times> 'p world" where
  "reset_nodes [] i w = (Inr (), w)"
| "reset_nodes (node # nodes) i w =
     (case node of
        BaseTask n \<Rightarrow> reset_nodes nodes i (set_atom_intention (name node) i (change_state node PENDING w))
      | Retry n \<Rightarrow> reset_nodes nodes i (set_atom_intention (name node) i (change_state node PENDING w))
      | UnknownNode n \<Rightarrow> (Inl (TypeError node), w))"

definition reset_all :: "'p env \<Rightarrow> 'p world \<Rightarrow> (error + unit) \<times> 'p world" where
  "reset_all env w = reset_nodes (iterate_all_nodes env w) EXECUTE w"

text \<open>\<^verbatim>\<open>_retry_subflow\<close>: the controller's own intention becomes \<^verbatim>\<open>EXECUTE\<close>, then
  the nodes of its subgraph are reset.\<close>

definition retry_subflow :: "'p env \<Rightarrow> atom \<Rightarrow> 'p world \<Rightarrow> (error + unit) \<times> 'p world" where
  "retry_subflow env retry w =
     (let w1 = set_atom_intention (name retry) EXECUTE w
      in reset_nodes (iterate_subgraph env retry w1) EXECUTE w1)"

section \<open>Scheduling\<close>

definition schedule_task :: "'p env \<Rightarrow> atom \<Rightarrow> 'p world \<Rightarrow> (error + future) \<times> 'p world" where
  "schedule_task env task w =
     (let intention = atom_intention w (name task)
      in if intention = EXECUTE then schedule_execution env task w
         else if intention = REVERT then schedule_reversion env task w
         else (Inl (ExecutionFailure task intention), w))"

definition schedule_retry :: "'p env \<Rightarrow> atom \<Rightarrow> 'p world \<Rightarrow> (error + future) \<times> 'p world" where
  "schedule_retry env retry w =
     (let intention = atom_intention w (name retry)
      in if intention = EXECUTE then retry_execute env retry w
         else if intention = REVERT then retry_revert env retry w
         else if intention = RETRY then
           (case retry_subflow env retry (change_state retry RETRYING w) of
              (Inl e, w') \<Rightarrow> (Inl e, w')
            | (Inr u, w') \<Rightarrow> retry_execute env retry w')
         else (Inl (ExecutionFailure retry intention), w))"

definition schedule_node :: "'p env \<Rightarrow> atom \<Rightarrow> 'p world \<Rightarrow> (error + future) \<times> 'p world" where
  "schedule_node env node w =
     (case node of
        BaseTask n \<Rightarrow> schedule_task env node w
      | Retry n \<Rightarrow> schedule_retry env node w
      | UnknownNode n \<Rightarrow> (Inl (TypeError node), w))"

text \<open>\<^verbatim>\<open>_schedule\<close>: the loop over the nodes with the futures collected so far. The
  handler \<^verbatim>\<open>except Exception\<close> catches whatever scheduling the node raised, and the
  function returns at once with the futures it has and that one failure.\<close>

fun schedule_loop ::
  "'p env \<Rightarrow> atom list \<Rightarrow> future list \<Rightarrow> 'p world \<Rightarrow> (future list \<times> failure list) \<times> 'p world" where
  "schedule_loop env [] futures w = ((futures, []), w)"
| "schedule_loop env (node # nodes) futures w =
     (case schedule_node env node w of
        (Inr fut, w') \<Rightarrow> schedule_loop env nodes (set_add fut futures) w'
      | (Inl e, w') \<Rightarrow> ((futures, [e]), w'))"

definition schedule :: "'p env \<Rightarrow> atom list \<Rightarrow> 'p world \<Rightarrow> (future list \<times> failure list) \<times> 'p world" where
  "schedule env nodes w = schedule_loop env nodes [] w"

definition complete_task ::
  "'p env \<Rightarrow> atom \<Rightarrow> event \<Rightarrow> result \<Rightarrow> 'p world \<Rightarrow> (error + unit) \<times> 'p world" where
  "complete_task env task event result w =
     (if event = ex_EXECUTED then complete_execution env task result w
      else complete_reversion env task result w)"

section \<open>Failure escalation\<close>

definition revert_all :: "'p env \<Rightarrow> 'p world \<Rightarrow> 'p world" where
  "revert_all env w =
     fold (\<lambda>node. set_atom_intention (name node) REVERT) (iterate_all_nodes env w) w"

text \<open>\<^verbatim>\<open>_process_atom_failure\<close>. The first argument after the collaborators is the
  number of activations still allowed: at none the call raises \<^verbatim>\<open>RecursionError\<close>.\<close>

fun process_atom_failure ::
  "'p env \<Rightarrow> nat \<Rightarrow> atom \<Rightarrow> result \<Rightarrow> 'p world \<Rightarrow> (error + unit) \<times> 'p world" where
  "process_atom_failure env 0 atom failure w = (Inl RecursionError, w)"
| "process_atom_failure env (Suc depth) atom failure w =
     (case find_atom_retry env atom w of
        Some retry \<Rightarrow>
          (case on_failure env retry atom failure w of
             (Inl e, w1) \<Rightarrow> (Inl e, w1)
           | (Inr action, w1) \<Rightarrow>
               if action = r_RETRY then
                 (let w2 = set_atom_intention (name retry) RETRY w1
                  in (Inr (), fold (\<lambda>node. set_atom_intention (name node) REVERT)
                                (iterate_subgraph env retry w2) w2))
               else if action = r_REVERT then process_atom_failure env depth retry failure w1
               else if action = r_REVERT_ALL then (Inr (), revert_all env w1)
               else (Inr (), w1))
      | None \<Rightarrow> (Inr (), revert_all env w))"

section \<open>Resuming\<close>

text \<open>The three loops of \<^verbatim>\<open>_prepare_flow_for_resume\<close>. The failure handed to the
  escalation is \<^verbatim>\<open>storage.get(node.name)\<close>, the last result stored for the atom.\<close>

fun escalate_failed :: "'p env \<Rightarrow> atom list \<Rightarrow> 'p world \<Rightarrow> (error + unit) \<times> 'p world" where
  "escalate_failed env [] w = (Inr (), w)"
| "escalate_failed env (node # nodes) w =
     (if get_state node w = FAILURE then
        (case process_atom_failure env (recursion_limit env) node (atom_result w (name node)) w of
           (Inl e, w') \<Rightarrow> (Inl e, w')
         | (Inr u, w') \<Rightarrow> escalate_failed env nodes w')
      else escalate_failed env nodes w)"

fun rearm_retries :: "'p env \<Rightarrow> atom list \<Rightarrow> 'p world \<Rightarrow> (error + unit) \<times> 'p world" where
  "rearm_retries env [] w = (Inr (), w)"
| "rearm_retries env (retry # retries) w =
     (case retry_subflow env retry w of
        (Inl e, w') \<Rightarrow> (Inl e, w')
      | (Inr u, w') \<Rightarrow> rearm_retries env retries w')"

definition in_flight_nodes :: "atom list \<Rightarrow> 'p world \<Rightarrow> atom list" where
  "in_flight_nodes nodes w =
     fold (\<lambda>node next_nodes.
             if get_state node w = RUNNING \<or> get_state node w = REVERTING
             then set_add node next_nodes else next_nodes) nodes []"

definition prepare_flow_for_resume :: "'p env \<Rightarrow> 'p world \<Rightarrow> (error + atom list) \<times> 'p world" where
  "prepare_flow_for_resume env w =
     (case escalate_failed env (iterate_all_nodes env w) w of
        (Inl e, w1) \<Rightarrow> (Inl e, w1)
      | (Inr u, w1) \<Rightarrow>
          (case rearm_retries env (iterate_retries env RETRYING w1) w1 of
             (Inl e, w2) \<Rightarrow> (Inl e, w2)
           | (Inr u, w2) \<Rightarrow> (Inr (in_flight_nodes (iterate_all_nodes env w2) w2), w2)))"

section \<open>Analysing resolved futures\<close>

text \<open>
  The body of the \<^verbatim>\<open>try\<close> in the loop over the resolved futures, after
  \<^verbatim>\<open>future.result()\<close> has returned: a task is completed; a result that is a
  \<^verbatim>\<open>Failure\<close> is escalated when the event is \<^verbatim>\<open>EXECUTED\<close> and appended to
  the failures otherwise. The value is the list of failures afterwards, or the
  exception that left the \<^verbatim>\<open>try\<close>.
\<close>

definition handle_result ::
  "'p env \<Rightarrow> atom \<Rightarrow> event \<Rightarrow> result \<Rightarrow> failure list \<Rightarrow> 'p world
     \<Rightarrow> (error + failure list) \<times> 'p world" where
  "handle_result env node event result failures w =
     (case (case node of
              BaseTask n \<Rightarrow> complete_task env node event result w
            | Retry n \<Rightarrow> (Inr (), w)
            | UnknownNode n \<Rightarrow> (Inr (), w)) of
        (Inl e, w1) \<Rightarrow> (Inl e, w1)
      | (Inr u, w1) \<Rightarrow>
          (case result of
             Failure f \<Rightarrow>
               if event = ex_EXECUTED then
                 (case process_atom_failure env (recursion_limit env) node result w1 of
                    (Inl e, w2) \<Rightarrow> (Inl e, w2)
                  | (Inr u, w2) \<Rightarrow> (Inr failures, w2))
               else (Inr (failures @ [f]), w1)
           | Value v \<Rightarrow> (Inr failures, w1)))"

text \<open>
  One pass of \<^verbatim>\<open>for future in done\<close> (the set \<^verbatim>\<open>done\<close> is \<open>resolved\<close> below): the \<^verbatim>\<open>except\<close> clause appends the
  exception to the failures; the \<^verbatim>\<open>else\<close> clause, taken whenever the
  \<^verbatim>\<open>try\<close> raised nothing, asks the analyzer for the nodes after \<open>node\<close>.
\<close>

definition analyze_future ::
  "'p env \<Rightarrow> future \<Rightarrow> atom list \<times> failure list \<times> 'p world \<Rightarrow> atom list \<times> failure list \<times> 'p world" where
  "analyze_future env fut acc =
     (case acc of (next_nodes, failures, w) \<Rightarrow>
        (case future_result env fut w of
           Inl e \<Rightarrow> (next_nodes, failures @ [e], w)
         | Inr (node, event, result) \<Rightarrow>
             (case handle_result env node event result failures w of
                (Inl e, w1) \<Rightarrow> (next_nodes, failures @ [e], w1)
              | (Inr failures1, w1) \<Rightarrow>
                  (case get_next_nodes env (Some node) w1 of
                     Inl e \<Rightarrow> (next_nodes, failures1 @ [e], w1)
                   | Inr more_nodes \<Rightarrow> (set_update next_nodes more_nodes, failures1, w1)))))"

definition analyze ::
  "'p env \<Rightarrow> future list \<Rightarrow> failure list \<Rightarrow> 'p world \<Rightarrow> atom list \<times> failure list \<times> 'p world" where
  "analyze env resolved failures w = fold (analyze_future env) resolved ([], failures, w)"

section \<open>The generator\<close>

text \<open>Modelled from the spec: \<^verbatim>\<open>misc.Failure.reraise_if_any\<close> is not part of this
  file; it re-raises the single failure if there is exactly one and raises an aggregate
  of all of them if there are more. The value is the exception raised, if any.\<close>

definition reraise_if_any :: "failure list \<Rightarrow> error option" where
  "reraise_if_any failures =
     (case failures of
        [] \<Rightarrow> None
      | [f] \<Rightarrow> Some f
      | f # g # fs \<Rightarrow> Some (WrappedFailure failures))"

text \<open>
  \<^verbatim>\<open>execute_iter\<close> is a generator. Its state between two calls of
  \<^verbatim>\<open>next\<close> is the \<^verbatim>\<open>yield\<close> it is suspended at with the local variables
  that are live there.
\<close>

datatype gen =
    Created
  | At_RESUMING
  | At_SCHEDULING_first "atom list"
  | At_WAITING "future list" "failure list"
  | At_ANALYZING "future list" "future list" "failure list"
  | At_SCHEDULING "atom list" "future list" "failure list"
  | At_terminal
  | Finished
  | Raised error

definition WAITING_TIMEOUT :: nat where
  "WAITING_TIMEOUT = 60"

text \<open>What follows the \<^verbatim>\<open>while\<close> loop: the accumulated failures are raised, or
  the terminal marker is yielded.\<close>

definition after_loop :: "'p env \<Rightarrow> failure list \<Rightarrow> 'p world \<Rightarrow> state option \<times> gen \<times> 'p world" where
  "after_loop env failures w =
     (case (if failures \<noteq> [] then reraise_if_any failures else None) of
        Some e \<Rightarrow> (None, Raised e, w)
      | None \<Rightarrow>
          (case get_next_nodes env None w of
             Inl e \<Rightarrow> (None, Raised e, w)
           | Inr nodes \<Rightarrow>
               if nodes \<noteq> [] then (Some SUSPENDED, At_terminal, w)
               else if is_success env w then (Some SUCCESS, At_terminal, w)
               else (Some REVERTED, At_terminal, w)))"

text \<open>The test of \<^verbatim>\<open>while not_done\<close>.\<close>

definition loop_head ::
  "'p env \<Rightarrow> future list \<Rightarrow> failure list \<Rightarrow> 'p world \<Rightarrow> state option \<times> gen \<times> 'p world" where
  "loop_head env not_done failures w =
     (if not_done \<noteq> [] then (Some WAITING, At_WAITING not_done failures, w)
      else after_loop env failures w)"

text \<open>
  One call of \<^verbatim>\<open>next\<close>: the code from one \<^verbatim>\<open>yield\<close> to the following one.
  The value is the marker yielded (\<open>None\<close> when the generator returns or raises), the
  new state of the generator and the world.
\<close>

fun gen_next :: "'p env \<Rightarrow> nat option \<Rightarrow> gen \<times> 'p world \<Rightarrow> state option \<times> gen \<times> 'p world" where
  "gen_next env timeout (Created, w) = (Some RESUMING, At_RESUMING, w)"
| "gen_next env timeout (At_RESUMING, w0) =
     (let w = interfere env RESUMING w0
      in case prepare_flow_for_resume env w of
           (Inl e, w1) \<Rightarrow> (None, Raised e, w1)
         | (Inr next_nodes, w1) \<Rightarrow>
             (case get_next_nodes env None w1 of
                Inl e \<Rightarrow> (None, Raised e, w1)
              | Inr ready \<Rightarrow> (Some SCHEDULING, At_SCHEDULING_first (set_update next_nodes ready), w1)))"
| "gen_next env timeout (At_SCHEDULING_first next_nodes, w0) =
     (let w = interfere env SCHEDULING w0
      in if is_running w then
           (case schedule env next_nodes w of
              ((not_done, failures), w1) \<Rightarrow> loop_head env not_done failures w1)
         else loop_head env [] [] w)"
| "gen_next env timeout (At_WAITING not_done failures, w0) =
     (let w = interfere env WAITING w0;
          t = (case timeout of None \<Rightarrow> WAITING_TIMEOUT | Some t \<Rightarrow> t)
      in case wait_for_any env not_done t w of
           ((resolved, not_done1), w1) \<Rightarrow>
             (Some ANALYZING, At_ANALYZING resolved not_done1 failures, w1))"
| "gen_next env timeout (At_ANALYZING resolved not_done failures, w0) =
     (let w = interfere env ANALYZING w0
      in case analyze env resolved failures w of
           (next_nodes, failures1, w1) \<Rightarrow>
             if next_nodes \<noteq> [] \<and> failures1 = [] \<and> is_running w1
             then (Some SCHEDULING, At_SCHEDULING next_nodes not_done failures1, w1)
             else loop_head env not_done failures1 w1)"
| "gen_next env timeout (At_SCHEDULING next_nodes not_done failures, w0) =
     (let w = interfere env SCHEDULING w0
      in if is_running w then
           (case schedule env next_nodes w of
              ((more_not_done, failures1), w1) \<Rightarrow>
                loop_head env (set_update not_done more_not_done) failures1 w1)
         else loop_head env not_done failures w)"
| "gen_next env timeout (At_terminal, w0) = (None, Finished, w0)"
| "gen_next env timeout (Finished, w0) = (None, Finished, w0)"
| "gen_next env timeout (Raised e, w0) = (None, Finished, w0)"

text \<open>
  The first \<open>n\<close> calls of \<^verbatim>\<open>next\<close>, stopping when the generator returns or
  raises: the markers yielded, and where the generator and the world are then.
\<close>

fun run ::
  "'p env \<Rightarrow> nat option \<Rightarrow> nat \<Rightarrow> gen \<times> 'p world \<Rightarrow> state list \<times> gen \<times> 'p world" where
  "run env timeout 0 (g, w) = ([], g, w)"
| "run env timeout (Suc n) (g, w) =
     (case gen_next env timeout (g, w) of
        (Some m, g1, w1) \<Rightarrow>
          (case run env timeout n (g1, w1) of (ms, g2, w2) \<Rightarrow> (m # ms, g2, w2))
      | (None, g1, w1) \<Rightarrow> ([], g1, w1))"

definition execute_iter ::
  "'p env \<Rightarrow> nat option \<Rightarrow> nat \<Rightarrow> 'p world \<Rightarrow> state list \<times> gen \<times> 'p world" where
  "execute_iter env timeout n w = run env timeout n (Created, w)"

section \<open>Properties\<close>

text \<open>Two worlds that differ in nothing the storage keeps but the intentions.\<close>

definition unchanged_but_intentions :: "'p world \<Rightarrow> 'p world \<Rightarrow> bool" where
  "unchanged_but_intentions w w' =
     (flow_state w' = flow_state w \<and> atom_state w' = atom_state w \<and> atom_result w' = atom_result w)"

text \<open>A node \<^verbatim>\<open>_reset_nodes\<close> knows how to reset.\<close>

definition known_kind :: "atom \<Rightarrow> bool" where
  "known_kind node = (case node of BaseTask n \<Rightarrow> True | Retry n \<Rightarrow> True | UnknownNode n \<Rightarrow> False)"

text \<open>The terminal markers, and the order of the markers of a run:
  \<^verbatim>\<open>RESUMING SCHEDULING (WAITING ANALYZING [SCHEDULING])* terminal\<close>.\<close>

definition is_terminal :: "state \<Rightarrow> bool" where
  "is_terminal m = (m = SUSPENDED \<or> m = SUCCESS \<or> m = REVERTED)"

fun loop_pattern :: "state list \<Rightarrow> bool" where
  "loop_pattern [] = False"
| "loop_pattern [m] = is_terminal m"
| "loop_pattern (m1 # m2 # ms) =
     (m1 = WAITING \<and> m2 = ANALYZING \<and>
      (loop_pattern ms \<or> (case ms of [] \<Rightarrow> False | m3 # ms' \<Rightarrow> m3 = SCHEDULING \<and> loop_pattern ms')))"

definition marker_pattern :: "state list \<Rightarrow> bool" where
  "marker_pattern ms =
     (case ms of
        m1 # m2 # rest \<Rightarrow> m1 = RESUMING \<and> m2 = SCHEDULING \<and> loop_pattern rest
      | _ \<Rightarrow> False)"

text \<open>What is still to come after \<^verbatim>\<open>ANALYZING\<close>, and the markers still to come from
  each state of the generator in a run that returns.\<close>

definition after_analyzing :: "state list \<Rightarrow> bool" where
  "after_analyzing ms =
     (loop_pattern ms \<or> (case ms of [] \<Rightarrow> False | m3 # ms' \<Rightarrow> m3 = SCHEDULING \<and> loop_pattern ms'))"

fun expected :: "gen \<Rightarrow> state list \<Rightarrow> bool" where
  "expected Created ms = marker_pattern ms"
| "expected At_RESUMING ms = (case ms of [] \<Rightarrow> False | m # rest \<Rightarrow> m = SCHEDULING \<and> loop_pattern rest)"
| "expected (At_SCHEDULING_first next_nodes) ms = loop_pattern ms"
| "expected (At_WAITING not_done failures) ms =
     (case ms of [] \<Rightarrow> False | m # rest \<Rightarrow> m = ANALYZING \<and> after_analyzing rest)"
| "expected (At_ANALYZING resolved not_done failures) ms = after_analyzing ms"
| "expected (At_SCHEDULING next_nodes not_done failures) ms = loop_pattern ms"
| "expected At_terminal ms = (ms = [])"
| "expected Finished ms = (ms = [])"
| "expected (Raised e) ms = (ms = [])"

text \<open>The futures the generator is still waiting for: its set \<^verbatim>\<open>not_done\<close>.\<close>

fun in_flight :: "gen \<Rightarrow> future list" where
  "in_flight (At_WAITING not_done failures) = not_done"
| "in_flight (At_ANALYZING resolved not_done failures) = not_done"
| "in_flight (At_SCHEDULING next_nodes not_done failures) = not_done"
| "in_flight g = []"

text \<open>
  One future per atom. \<open>owner\<close> tells which atom a future was created for. The
  invariant of the generator: the futures in \<^verbatim>\<open>not_done\<close> have distinct owners,
  and the candidate nodes of a scheduling step are distinct and own none of them.
\<close>

fun one_future_per_atom :: "(future \<Rightarrow> atom) \<Rightarrow> gen \<Rightarrow> bool" where
  "one_future_per_atom owner (At_SCHEDULING_first next_nodes) = distinct next_nodes"
| "one_future_per_atom owner (At_WAITING not_done failures) = distinct (map owner not_done)"
| "one_future_per_atom owner (At_ANALYZING resolved not_done failures) = distinct (map owner not_done)"
| "one_future_per_atom owner (At_SCHEDULING next_nodes not_done failures) =
     (distinct (map owner not_done) \<and> distinct next_nodes \<and>
      (\<forall>fut \<in> set not_done. owner fut \<notin> set next_nodes))"
| "one_future_per_atom owner g = True"

text \<open>
  The assumption on the analyzer, along the first \<open>n\<close> steps of the generator from a
  given state: at every analyzing step, none of the nodes it reports after the
  completed atoms owns a future that is still in \<^verbatim>\<open>not_done\<close>.
\<close>

fun analyzer_excludes_in_flight ::
  "'p env \<Rightarrow> nat option \<Rightarrow> (future \<Rightarrow> atom) \<Rightarrow> nat \<Rightarrow> gen \<times> 'p world \<Rightarrow> bool" where
  "analyzer_excludes_in_flight env timeout owner 0 (g, w) = True"
| "analyzer_excludes_in_flight env timeout owner (Suc n) (g, w) =
     ((case g of
         At_ANALYZING resolved not_done failures \<Rightarrow>
           (\<forall>fut \<in> set not_done.
              owner fut \<notin> set (fst (analyze env resolved failures (interfere env ANALYZING w))))
       | _ \<Rightarrow> True)
      \<and> (case gen_next env timeout (g, w) of
           (emit, g1, w1) \<Rightarrow> analyzer_excludes_in_flight env timeout owner n (g1, w1)))"

text \<open>
  What one step of the generator does with futures: the futures \<^verbatim>\<open>_schedule\<close>
  returns in the step taken from a state, and the futures that \<^verbatim>\<open>wait_for_any\<close>
  was given in that step and does not report as not done. Then the same along the first
  \<open>n\<close> steps of a run.
\<close>

fun step_scheduled :: "'p env \<Rightarrow> gen \<times> 'p world \<Rightarrow> future list" where
  "step_scheduled env (At_SCHEDULING_first next_nodes, w) =
     (if is_running (interfere env SCHEDULING w)
      then fst (fst (schedule env next_nodes (interfere env SCHEDULING w))) else [])"
| "step_scheduled env (At_SCHEDULING next_nodes not_done failures, w) =
     (if is_running (interfere env SCHEDULING w)
      then fst (fst (schedule env next_nodes (interfere env SCHEDULING w))) else [])"
| "step_scheduled env (g, w) = []"

fun step_resolved :: "'p env \<Rightarrow> nat option \<Rightarrow> gen \<times> 'p world \<Rightarrow> future list" where
  "step_resolved env timeout (At_WAITING not_done failures, w) =
     filter (\<lambda>fut. fut \<notin> set (snd (fst (wait_for_any env not_done
                                   (case timeout of None \<Rightarrow> WAITING_TIMEOUT | Some t \<Rightarrow> t)
                                   (interfere env WAITING w)))))
       not_done"
| "step_resolved env timeout (g, w) = []"

fun scheduled_upto :: "'p env \<Rightarrow> nat option \<Rightarrow> nat \<Rightarrow> gen \<times> 'p world \<Rightarrow> future list" where
  "scheduled_upto env timeout 0 (g, w) = []"
| "scheduled_upto env timeout (Suc n) (g, w) =
     step_scheduled env (g, w) @
     (case gen_next env timeout (g, w) of
        (Some m, g1, w1) \<Rightarrow> scheduled_upto env timeout n (g1, w1)
      | (None, g1, w1) \<Rightarrow> [])"

fun resolved_upto :: "'p env \<Rightarrow> nat option \<Rightarrow> nat \<Rightarrow> gen \<times> 'p world \<Rightarrow> future list" where
  "resolved_upto env timeout 0 (g, w) = []"
| "resolved_upto env timeout (Suc n) (g, w) =
     step_resolved env timeout (g, w) @
     (case gen_next env timeout (g, w) of
        (Some m, g1, w1) \<Rightarrow> resolved_upto env timeout n (g1, w1)
      | (None, g1, w1) \<Rightarrow> [])"

section \<open>Two small flows\<close>

text \<open>
  A flow of four tasks for running the generator: \<open>x\<close> comes after \<open>v\<close>, \<open>y\<close> after
  \<open>x\<close>, and \<open>z\<close> stands alone. The analyzer reports a task ready to execute when it is
  \<^verbatim>\<open>PENDING\<close> with all its predecessors done, and ready to revert when it has run
  and none of its successors still has; the executor resolves one future per wait, in
  order. Executing the task numbered \<open>k\<close> is the future \<open>k\<close>, reverting it the future
  \<open>k + 10\<close>; a node that is not in the flow is refused; \<open>outside\<close> lists the futures
  that resolve with a failure.
\<close>

definition demo_nodes :: "atom list" where
  "demo_nodes = [BaseTask ''v'', BaseTask ''x'', BaseTask ''y'', BaseTask ''z'']"

definition demo_succs :: "atom \<Rightarrow> atom list" where
  "demo_succs node = (if node = BaseTask ''v'' then [BaseTask ''x'']
                      else if node = BaseTask ''x'' then [BaseTask ''y''] else [])"

definition demo_preds :: "atom \<Rightarrow> atom list" where
  "demo_preds node = (if node = BaseTask ''x'' then [BaseTask ''v'']
                      else if node = BaseTask ''y'' then [BaseTask ''x''] else [])"

definition demo_ready :: "nat list world \<Rightarrow> atom \<Rightarrow> bool" where
  "demo_ready w node =
     (if atom_intention w (name node) = EXECUTE then
        atom_state w (name node) = PENDING \<and>
        list_all (\<lambda>p. atom_state w (name p) = SUCCESS) (demo_preds node)
      else if atom_intention w (name node) = REVERT then
        (atom_state w (name node) = SUCCESS \<or> atom_state w (name node) = FAILURE) \<and>
        list_all (\<lambda>s. atom_state w (name s) = PENDING \<or> atom_state w (name s) = REVERTED)
          (demo_succs node)
      else False)"

definition demo_id :: "atom \<Rightarrow> nat" where
  "demo_id node = (if name node = ''v'' then 1 else if name node = ''x'' then 2
                   else if name node = ''y'' then 3 else 4)"

definition demo_atom :: "future \<Rightarrow> atom" where
  "demo_atom fut = (if fut mod 10 = 1 then BaseTask ''v'' else if fut mod 10 = 2 then BaseTask ''x''
                    else if fut mod 10 = 3 then BaseTask ''y'' else BaseTask ''z'')"

definition demo_complete ::
  "state \<Rightarrow> atom \<Rightarrow> result \<Rightarrow> nat list world \<Rightarrow> (error + unit) \<times> nat list world" where
  "demo_complete s node res w =
     (Inr (), w\<lparr>atom_state := (atom_state w)(name node := (case res of Failure f \<Rightarrow> FAILURE | Value v \<Rightarrow> s)),
               atom_result := (atom_result w)(name node := res)\<rparr>)"

definition demo_env :: "nat list env" where
  "demo_env = \<lparr>
     get_next_nodes = (\<lambda>arg w. Inr (filter (demo_ready w)
        (case arg of None \<Rightarrow> demo_nodes
         | Some node \<Rightarrow> if atom_state w (name node) = FAILURE then demo_nodes
                        else demo_succs node @ demo_preds node))),
     find_atom_retry = (\<lambda>node w. None),
     iterate_subgraph = (\<lambda>retry w. []),
     iterate_all_nodes = (\<lambda>w. demo_nodes),
     iterate_retries = (\<lambda>s w. []),
     is_success = (\<lambda>w. list_all (\<lambda>node. atom_state w (name node) = SUCCESS) demo_nodes),
     schedule_execution = (\<lambda>node w.
        if node \<in> set demo_nodes then (Inr (demo_id node), change_state node RUNNING w)
        else (Inl (External ''not in the flow''), w)),
     schedule_reversion = (\<lambda>node w.
        if node \<in> set demo_nodes then (Inr (demo_id node + 10), change_state node REVERTING w)
        else (Inl (External ''not in the flow''), w)),
     complete_execution = demo_complete SUCCESS,
     complete_reversion = demo_complete REVERTED,
     wait_for_any = (\<lambda>not_done t w. ((take 1 not_done, drop 1 not_done), w)),
     retry_execute = (\<lambda>retry w. (Inl (External ''no retry controller''), w)),
     retry_revert = (\<lambda>retry w. (Inl (External ''no retry controller''), w)),
     on_failure = (\<lambda>retry node failure w. (Inr r_REVERT_ALL, w)),
     future_result = (\<lambda>fut w. Inr (demo_atom fut, if fut < 10 then ex_EXECUTED else ex_REVERTED,
                                    if fut \<in> set (outside w) then Failure (External ''boom'')
                                    else Value ''ok'')),
     interfere = (\<lambda>m w. w),
     recursion_limit = 10 \<rparr>"

text \<open>The same flow with a consumer that suspends it while the generator is at
  \<^verbatim>\<open>ANALYZING\<close>.\<close>

definition suspending_env :: "nat list env" where
  "suspending_env =
     demo_env\<lparr>interfere := (\<lambda>m w. if m = ANALYZING then w\<lparr>flow_state := SUSPENDED\<rparr> else w)\<rparr>"

text \<open>The same flow with an executor on which no future ever resolves: every wait times
  out with nothing done.\<close>

definition stalled_env :: "nat list env" where
  "stalled_env = demo_env\<lparr>wait_for_any := (\<lambda>not_done t w. (([], not_done), w))\<rparr>"

definition demo_world :: "intention \<Rightarrow> state \<Rightarrow> nat list \<Rightarrow> nat list world" where
  "demo_world i s failing =
     \<lparr> flow_state = RUNNING, atom_intention = (\<lambda>n. i), atom_state = (\<lambda>n. s),
       atom_result = (\<lambda>n. Value ''''), outside = failing \<rparr>"

text \<open>
  A flow with nested retry controllers for the escalation: \<open>r1\<close> guards \<open>t1\<close>, \<open>r2\<close>
  and \<open>t2\<close>; \<open>r2\<close> guards \<open>t2\<close>; \<open>r3\<close> guards \<open>t3\<close>; \<open>t0\<close> has no controller. On a
  failure \<open>r1\<close> answers \<^verbatim>\<open>RETRY\<close>, \<open>r2\<close> \<^verbatim>\<open>REVERT\<close> and \<open>r3\<close>
  \<^verbatim>\<open>REVERT_ALL\<close>.
\<close>

definition esc_nodes :: "atom list" where
  "esc_nodes = [BaseTask ''t0'', Retry ''r1'', BaseTask ''t1'', Retry ''r2'', BaseTask ''t2'',
                Retry ''r3'', BaseTask ''t3'']"

definition esc_env :: "unit env" where
  "esc_env = \<lparr>
     get_next_nodes = (\<lambda>arg w. Inr []),
     find_atom_retry = (\<lambda>node w.
        if node = BaseTask ''t1'' \<or> node = Retry ''r2'' then Some (Retry ''r1'')
        else if node = BaseTask ''t2'' then Some (Retry ''r2'')
        else if node = BaseTask ''t3'' then Some (Retry ''r3'')
        else None),
     iterate_subgraph = (\<lambda>retry w.
        if retry = Retry ''r1'' then [BaseTask ''t1'', Retry ''r2'', BaseTask ''t2'']
        else if retry = Retry ''r2'' then [BaseTask ''t2'']
        else if retry = Retry ''r3'' then [BaseTask ''t3'']
        else []),
     iterate_all_nodes = (\<lambda>w. esc_nodes),
     iterate_retries = (\<lambda>s w. filter (\<lambda>node. atom_state w (name node) = s)
                                  [Retry ''r1'', Retry ''r2'', Retry ''r3'']),
     is_success = (\<lambda>w. list_all (\<lambda>node. atom_state w (name node) = SUCCESS) esc_nodes),
     schedule_execution = (\<lambda>node w. (Inr 1, w)),
     schedule_reversion = (\<lambda>node w. (Inr 2, w)),
     complete_execution = (\<lambda>node res w. (Inr (), w)),
     complete_reversion = (\<lambda>node res w. (Inr (), w)),
     wait_for_any = (\<lambda>not_done t w. ((not_done, []), w)),
     retry_execute = (\<lambda>retry w. (Inr 3, w)),
     retry_revert = (\<lambda>retry w. (Inr 4, w)),
     on_failure = (\<lambda>retry node failure w.
        (Inr (if retry = Retry ''r1'' then r_RETRY
              else if retry = Retry ''r2'' then r_REVERT
              else if retry = Retry ''r3'' then r_REVERT_ALL
              else r_unknown ''''), w)),
     future_result = (\<lambda>fut w. Inl (External ''no such future'')),
     interfere = (\<lambda>m w. w),
     recursion_limit = 10 \<rparr>"

definition esc_world :: "intention \<Rightarrow> unit world" where
  "esc_world i =
     \<lparr> flow_state = RUNNING, atom_intention = (\<lambda>n. if n = ''r1'' then i else EXECUTE),
       atom_state = (\<lambda>n. SUCCESS), atom_result = (\<lambda>n. Value ''''), outside = () \<rparr>"

section \<open>Writing intentions\<close>

lemma unchanged_refl: "unchanged_but_intentions w w"
  by (simp add: unchanged_but_intentions_def)

lemma unchanged_trans:
  "unchanged_but_intentions w w1 \<Longrightarrow> unchanged_but_intentions w1 w2 \<Longrightarrow> unchanged_but_intentions w w2"
  by (simp add: unchanged_but_intentions_def)

lemma unchanged_set_atom_intention: "unchanged_but_intentions w (set_atom_intention n i w)"
  by (simp add: unchanged_but_intentions_def set_atom_intention_def)

lemma unchanged_fold_set:
  "unchanged_but_intentions w (fold (\<lambda>node. set_atom_intention (name node) i) nodes w)"
proof (induction nodes arbitrary: w)
  case Nil
  show ?case by (simp add: unchanged_refl)
next
  case (Cons node nodes)
  have "unchanged_but_intentions w (set_atom_intention (name node) i w)"
    by (rule unchanged_set_atom_intention)
  with Cons show ?case
    by (auto intro: unchanged_trans)
qed

lemma unchanged_revert_all: "unchanged_but_intentions w (revert_all env w)"
  by (simp add: revert_all_def unchanged_fold_set)

lemma unchanged_process_atom_failure:
  assumes pure: "\<And>retry atom failure w. unchanged_but_intentions w (snd (on_failure env retry atom failure w))"
  shows "unchanged_but_intentions w (snd (process_atom_failure env depth atom failure w))"
proof (induction depth arbitrary: atom w)
  case 0
  show ?case by (simp add: unchanged_refl)
next
  case (Suc depth)
  show ?case
  proof (cases "find_atom_retry env atom w")
    case None
    then show ?thesis by (simp add: unchanged_revert_all)
  next
    case (Some retry)
    obtain r w1 where of: "on_failure env retry atom failure w = (r, w1)"
      by (cases "on_failure env retry atom failure w")
    have u1: "unchanged_but_intentions w w1"
      using pure [of w retry atom failure] of by simp
    show ?thesis
    proof (cases r)
      case (Inl e)
      with Some of u1 show ?thesis by simp
    next
      case (Inr action)
      have a: "unchanged_but_intentions w1
                 (fold (\<lambda>node. set_atom_intention (name node) REVERT)
                   (iterate_subgraph env retry (set_atom_intention (name retry) RETRY w1))
                   (set_atom_intention (name retry) RETRY w1))"
        by (rule unchanged_trans [OF unchanged_set_atom_intention unchanged_fold_set])
      have b: "unchanged_but_intentions w1 (snd (process_atom_failure env depth retry failure w1))"
        by (rule Suc.IH)
      have c: "unchanged_but_intentions w1 (revert_all env w1)"
        by (rule unchanged_revert_all)
      show ?thesis
        using Some of Inr u1 a b c
        by (auto simp: Let_def intro: unchanged_trans unchanged_refl)
    qed
  qed
qed

lemma intention_fold_set:
  "atom_intention (fold (\<lambda>node. set_atom_intention (name node) i) nodes w) n =
     (if n \<in> name ` set nodes then i else atom_intention w n)"
  by (induction nodes arbitrary: w) (auto simp: set_atom_intention_def)

lemma intention_revert_all:
  "atom_intention (revert_all env w) n =
     (if n \<in> name ` set (iterate_all_nodes env w) then REVERT else atom_intention w n)"
  by (simp add: revert_all_def intention_fold_set)

text \<open>
  C10. Failure escalation writes only intentions: provided the retry action's
  \<^verbatim>\<open>on_failure\<close>, the one collaborator operation the escalation calls that
  is more than a query, leaves the flow state and the stored states and results alone,
  \<^verbatim>\<open>_process_atom_failure\<close> and \<^verbatim>\<open>_revert_all\<close> leave the flow state and
  every atom's stored state and stored result as they were, whatever the outcome of the
  escalation (also when it raises).
\<close>

theorem escalation_writes_only_intentions:
  assumes "\<forall>retry atom failure w. unchanged_but_intentions w (snd (on_failure env retry atom failure w))"
  shows "flow_state (snd (process_atom_failure env depth atom failure w)) = flow_state w
       \<and> atom_state (snd (process_atom_failure env depth atom failure w)) = atom_state w
       \<and> atom_result (snd (process_atom_failure env depth atom failure w)) = atom_result w
       \<and> flow_state (revert_all env w) = flow_state w
       \<and> atom_state (revert_all env w) = atom_state w
       \<and> atom_result (revert_all env w) = atom_result w"
proof -
  have "unchanged_but_intentions w (snd (process_atom_failure env depth atom failure w))"
    using assms by (intro unchanged_process_atom_failure) simp
  moreover have "unchanged_but_intentions w (revert_all env w)"
    by (rule unchanged_revert_all)
  ultimately show ?thesis
    by (simp add: unchanged_but_intentions_def)
qed

theorem escalation_writes_only_intentions_witness:
  "(\<forall>retry atom failure w. unchanged_but_intentions w (snd (on_failure esc_env retry atom failure w)))
   \<and> fst (process_atom_failure esc_env 10 (BaseTask ''t2'') (Failure (External ''boom'')) (esc_world EXECUTE))
       = Inr ()
   \<and> atom_intention (snd (process_atom_failure esc_env 10 (BaseTask ''t2'') (Failure (External ''boom''))
        (esc_world EXECUTE))) ''t2'' = REVERT
   \<and> flow_state (snd (process_atom_failure esc_env 10 (BaseTask ''t2'') (Failure (External ''boom''))
        (esc_world EXECUTE))) = RUNNING
   \<and> atom_state (snd (process_atom_failure esc_env 10 (BaseTask ''t2'') (Failure (External ''boom''))
        (esc_world EXECUTE))) = atom_state (esc_world EXECUTE)
   \<and> atom_result (snd (process_atom_failure esc_env 10 (BaseTask ''t2'') (Failure (External ''boom''))
        (esc_world EXECUTE))) = atom_result (esc_world EXECUTE)"
proof -
  have pure: "\<forall>retry atom failure w.
      unchanged_but_intentions w (snd (on_failure esc_env retry atom failure w))"
    by (simp add: esc_env_def unchanged_but_intentions_def)
  have run: "process_atom_failure esc_env 10 (BaseTask ''t2'') (Failure (External ''boom'')) (esc_world EXECUTE)
      = (Inr (), fold (\<lambda>node. set_atom_intention (name node) REVERT)
                   [BaseTask ''t1'', Retry ''r2'', BaseTask ''t2'']
                   (set_atom_intention ''r1'' RETRY (esc_world EXECUTE)))"
    by (simp add: eval_nat_numeral esc_env_def)
  have i: "atom_intention (snd (process_atom_failure esc_env 10 (BaseTask ''t2'')
             (Failure (External ''boom'')) (esc_world EXECUTE))) ''t2'' = REVERT"
    by (simp add: run set_atom_intention_def)
  have f: "fst (process_atom_failure esc_env 10 (BaseTask ''t2'')
             (Failure (External ''boom'')) (esc_world EXECUTE)) = Inr ()"
    by (simp add: run)
  have fs: "flow_state (esc_world EXECUTE) = RUNNING"
    by (simp add: esc_world_def)
  from escalation_writes_only_intentions [OF pure, of 10 "BaseTask ''t2''" "Failure (External ''boom'')"
        "esc_world EXECUTE"]
  have "flow_state (snd (process_atom_failure esc_env 10 (BaseTask ''t2'') (Failure (External ''boom''))
          (esc_world EXECUTE))) = RUNNING"
    and "atom_state (snd (process_atom_failure esc_env 10 (BaseTask ''t2'') (Failure (External ''boom''))
          (esc_world EXECUTE))) = atom_state (esc_world EXECUTE)"
    and "atom_result (snd (process_atom_failure esc_env 10 (BaseTask ''t2'') (Failure (External ''boom''))
          (esc_world EXECUTE))) = atom_result (esc_world EXECUTE)"
    by (simp_all only: fs)
  with pure i f show ?thesis
    by blast
qed

text \<open>
  C4. Failure escalation, case by case, for a failed atom (with one activation of
  \<^verbatim>\<open>_process_atom_failure\<close> at least allowed): with no guarding retry controller
  every atom of the graph gets the intention \<^verbatim>\<open>REVERT\<close>; with a controller whose
  \<^verbatim>\<open>on_failure\<close> answers \<^verbatim>\<open>RETRY\<close>, every atom of its subgraph gets
  \<^verbatim>\<open>REVERT\<close> and the controller, being no member of its subgraph, \<^verbatim>\<open>RETRY\<close>;
  on \<^verbatim>\<open>REVERT\<close> the escalation is that of the controller as the failed atom;
  on \<^verbatim>\<open>REVERT_ALL\<close> every atom of the graph gets \<^verbatim>\<open>REVERT\<close>.
\<close>

theorem process_atom_failure_cases:
  "(find_atom_retry env atom w = None \<longrightarrow>
      fst (process_atom_failure env (Suc depth) atom failure w) = Inr ()
    \<and> (\<forall>node \<in> set (iterate_all_nodes env w).
          atom_intention (snd (process_atom_failure env (Suc depth) atom failure w)) (name node) = REVERT))
 \<and> (find_atom_retry env atom w = Some retry \<and> on_failure env retry atom failure w = (Inr r_RETRY, w1) \<longrightarrow>
      fst (process_atom_failure env (Suc depth) atom failure w) = Inr ()
    \<and> (\<forall>node \<in> set (iterate_subgraph env retry (set_atom_intention (name retry) RETRY w1)).
          atom_intention (snd (process_atom_failure env (Suc depth) atom failure w)) (name node) = REVERT)
    \<and> (name retry \<notin> name ` set (iterate_subgraph env retry (set_atom_intention (name retry) RETRY w1)) \<longrightarrow>
          atom_intention (snd (process_atom_failure env (Suc depth) atom failure w)) (name retry) = RETRY))
 \<and> (find_atom_retry env atom w = Some retry \<and> on_failure env retry atom failure w = (Inr r_REVERT, w1) \<longrightarrow>
      process_atom_failure env (Suc depth) atom failure w = process_atom_failure env depth retry failure w1)
 \<and> (find_atom_retry env atom w = Some retry \<and> on_failure env retry atom failure w = (Inr r_REVERT_ALL, w1) \<longrightarrow>
      fst (process_atom_failure env (Suc depth) atom failure w) = Inr ()
    \<and> (\<forall>node \<in> set (iterate_all_nodes env w1).
          atom_intention (snd (process_atom_failure env (Suc depth) atom failure w)) (name node) = REVERT))"
proof (intro conjI impI)
  assume "find_atom_retry env atom w = None"
  then have r: "process_atom_failure env (Suc depth) atom failure w = (Inr (), revert_all env w)"
    by simp
  show "fst (process_atom_failure env (Suc depth) atom failure w) = Inr ()"
    unfolding r by simp
  show "\<forall>node \<in> set (iterate_all_nodes env w).
          atom_intention (snd (process_atom_failure env (Suc depth) atom failure w)) (name node) = REVERT"
    unfolding r by (simp add: intention_revert_all)
next
  assume a: "find_atom_retry env atom w = Some retry \<and> on_failure env retry atom failure w = (Inr r_RETRY, w1)"
  then have r: "process_atom_failure env (Suc depth) atom failure w =
      (Inr (), fold (\<lambda>node. set_atom_intention (name node) REVERT)
                 (iterate_subgraph env retry (set_atom_intention (name retry) RETRY w1))
                 (set_atom_intention (name retry) RETRY w1))"
    by (simp add: Let_def)
  show "fst (process_atom_failure env (Suc depth) atom failure w) = Inr ()"
    unfolding r by simp
  show "\<forall>node \<in> set (iterate_subgraph env retry (set_atom_intention (name retry) RETRY w1)).
          atom_intention (snd (process_atom_failure env (Suc depth) atom failure w)) (name node) = REVERT"
    unfolding r by (simp add: intention_fold_set)
  assume "name retry \<notin> name ` set (iterate_subgraph env retry (set_atom_intention (name retry) RETRY w1))"
  then show "atom_intention (snd (process_atom_failure env (Suc depth) atom failure w)) (name retry) = RETRY"
    unfolding r by (simp add: intention_fold_set set_atom_intention_def)
next
  assume "find_atom_retry env atom w = Some retry \<and> on_failure env retry atom failure w = (Inr r_REVERT, w1)"
  then show "process_atom_failure env (Suc depth) atom failure w = process_atom_failure env depth retry failure w1"
    by simp
next
  assume a: "find_atom_retry env atom w = Some retry \<and> on_failure env retry atom failure w = (Inr r_REVERT_ALL, w1)"
  then have r: "process_atom_failure env (Suc depth) atom failure w = (Inr (), revert_all env w1)"
    by simp
  show "fst (process_atom_failure env (Suc depth) atom failure w) = Inr ()"
    unfolding r by simp
  show "\<forall>node \<in> set (iterate_all_nodes env w1).
          atom_intention (snd (process_atom_failure env (Suc depth) atom failure w)) (name node) = REVERT"
    unfolding r by (simp add: intention_revert_all)
qed

theorem process_atom_failure_cases_witness:
  "find_atom_retry esc_env (BaseTask ''t0'') (esc_world EXECUTE) = None
 \<and> map (atom_intention (snd (process_atom_failure esc_env (Suc 9) (BaseTask ''t0'') (Failure (External ''boom''))
          (esc_world EXECUTE))))
      [''t0'', ''r1'', ''t1'', ''r2'', ''t2'', ''r3'', ''t3'']
    = [REVERT, REVERT, REVERT, REVERT, REVERT, REVERT, REVERT]
 \<and> find_atom_retry esc_env (BaseTask ''t1'') (esc_world EXECUTE) = Some (Retry ''r1'')
 \<and> on_failure esc_env (Retry ''r1'') (BaseTask ''t1'') (Failure (External ''boom'')) (esc_world EXECUTE)
    = (Inr r_RETRY, esc_world EXECUTE)
 \<and> map (atom_intention (snd (process_atom_failure esc_env (Suc 9) (BaseTask ''t1'') (Failure (External ''boom''))
          (esc_world EXECUTE))))
      [''t0'', ''r1'', ''t1'', ''r2'', ''t2'', ''r3'', ''t3'']
    = [EXECUTE, RETRY, REVERT, REVERT, REVERT, EXECUTE, EXECUTE]
 \<and> find_atom_retry esc_env (BaseTask ''t2'') (esc_world EXECUTE) = Some (Retry ''r2'')
 \<and> on_failure esc_env (Retry ''r2'') (BaseTask ''t2'') (Failure (External ''boom'')) (esc_world EXECUTE)
    = (Inr r_REVERT, esc_world EXECUTE)
 \<and> process_atom_failure esc_env (Suc 9) (BaseTask ''t2'') (Failure (External ''boom'')) (esc_world EXECUTE)
    = process_atom_failure esc_env 9 (Retry ''r2'') (Failure (External ''boom'')) (esc_world EXECUTE)
 \<and> find_atom_retry esc_env (BaseTask ''t3'') (esc_world EXECUTE) = Some (Retry ''r3'')
 \<and> on_failure esc_env (Retry ''r3'') (BaseTask ''t3'') (Failure (External ''boom'')) (esc_world EXECUTE)
    = (Inr r_REVERT_ALL, esc_world EXECUTE)
 \<and> map (atom_intention (snd (process_atom_failure esc_env (Suc 9) (BaseTask ''t3'') (Failure (External ''boom''))
          (esc_world EXECUTE))))
      [''t0'', ''r1'', ''t1'', ''r2'', ''t2'', ''r3'', ''t3'']
    = [REVERT, REVERT, REVERT, REVERT, REVERT, REVERT, REVERT]"
proof -
  have f0: "find_atom_retry esc_env (BaseTask ''t0'') (esc_world EXECUTE) = None"
    and f1: "find_atom_retry esc_env (BaseTask ''t1'') (esc_world EXECUTE) = Some (Retry ''r1'')"
    and f2: "find_atom_retry esc_env (BaseTask ''t2'') (esc_world EXECUTE) = Some (Retry ''r2'')"
    and f3: "find_atom_retry esc_env (BaseTask ''t3'') (esc_world EXECUTE) = Some (Retry ''r3'')"
    by (simp_all add: esc_env_def)
  have o1: "on_failure esc_env (Retry ''r1'') (BaseTask ''t1'') (Failure (External ''boom'')) (esc_world EXECUTE)
      = (Inr r_RETRY, esc_world EXECUTE)"
    and o2: "on_failure esc_env (Retry ''r2'') (BaseTask ''t2'') (Failure (External ''boom'')) (esc_world EXECUTE)
      = (Inr r_REVERT, esc_world EXECUTE)"
    and o3: "on_failure esc_env (Retry ''r3'') (BaseTask ''t3'') (Failure (External ''boom'')) (esc_world EXECUTE)
      = (Inr r_REVERT_ALL, esc_world EXECUTE)"
    by (simp_all add: esc_env_def)
  have all: "iterate_all_nodes esc_env (esc_world EXECUTE) = esc_nodes"
    and sub: "iterate_subgraph esc_env (Retry ''r1'') (set_atom_intention (name (Retry ''r1'')) RETRY (esc_world EXECUTE))
       = [BaseTask ''t1'', Retry ''r2'', BaseTask ''t2'']"
    by (simp_all add: esc_env_def)
  note c = process_atom_failure_cases [where env = esc_env and w = "esc_world EXECUTE"
      and failure = "Failure (External ''boom'')" and depth = 9]
  have c0: "map (atom_intention (snd (process_atom_failure esc_env (Suc 9) (BaseTask ''t0'')
              (Failure (External ''boom'')) (esc_world EXECUTE))))
              [''t0'', ''r1'', ''t1'', ''r2'', ''t2'', ''r3'', ''t3'']
            = [REVERT, REVERT, REVERT, REVERT, REVERT, REVERT, REVERT]"
    using c [where atom = "BaseTask ''t0''"] f0
    by (simp add: all esc_nodes_def)
  have c3: "map (atom_intention (snd (process_atom_failure esc_env (Suc 9) (BaseTask ''t3'')
              (Failure (External ''boom'')) (esc_world EXECUTE))))
              [''t0'', ''r1'', ''t1'', ''r2'', ''t2'', ''r3'', ''t3'']
            = [REVERT, REVERT, REVERT, REVERT, REVERT, REVERT, REVERT]"
    using c [where atom = "BaseTask ''t3''" and retry = "Retry ''r3''" and ?w1.0 = "esc_world EXECUTE"] f3 o3
    by (simp add: all esc_nodes_def)
  have c2: "process_atom_failure esc_env (Suc 9) (BaseTask ''t2'') (Failure (External ''boom'')) (esc_world EXECUTE)
      = process_atom_failure esc_env 9 (Retry ''r2'') (Failure (External ''boom'')) (esc_world EXECUTE)"
    using c [where atom = "BaseTask ''t2''" and retry = "Retry ''r2''" and ?w1.0 = "esc_world EXECUTE"] f2 o2
    by simp
  have r1: "process_atom_failure esc_env (Suc 9) (BaseTask ''t1'') (Failure (External ''boom'')) (esc_world EXECUTE)
      = (Inr (), fold (\<lambda>node. set_atom_intention (name node) REVERT)
                   [BaseTask ''t1'', Retry ''r2'', BaseTask ''t2'']
                   (set_atom_intention ''r1'' RETRY (esc_world EXECUTE)))"
    by (simp add: esc_env_def eval_nat_numeral)
  have c1: "map (atom_intention (snd (process_atom_failure esc_env (Suc 9) (BaseTask ''t1'')
              (Failure (External ''boom'')) (esc_world EXECUTE))))
              [''t0'', ''r1'', ''t1'', ''r2'', ''t2'', ''r3'', ''t3'']
            = [EXECUTE, RETRY, REVERT, REVERT, REVERT, EXECUTE, EXECUTE]"
    using c [where atom = "BaseTask ''t1''" and retry = "Retry ''r1''" and ?w1.0 = "esc_world EXECUTE"] f1 o1
    unfolding r1 by (simp add: set_atom_intention_def esc_world_def)
  show ?thesis
    using f0 f1 f2 f3 o1 o2 o3 c0 c1 c2 c3 by blast
qed

section \<open>Re-arming a retry controller\<close>

lemma reset_nodes_known:
  "list_all known_kind nodes \<Longrightarrow>
     reset_nodes nodes i w =
       (Inr (), fold (\<lambda>node w. set_atom_intention (name node) i (change_state node PENDING w)) nodes w)"
  by (induction nodes arbitrary: w) (auto simp: known_kind_def split: atom.splits)

lemma intention_fold_reset:
  "atom_intention (fold (\<lambda>node w. set_atom_intention (name node) i (change_state node s w)) nodes w) n =
     (if n \<in> name ` set nodes then i else atom_intention w n)"
  by (induction nodes arbitrary: w) (auto simp: set_atom_intention_def change_state_def)

lemma state_fold_reset:
  "atom_state (fold (\<lambda>node w. set_atom_intention (name node) i (change_state node s w)) nodes w) n =
     (if n \<in> name ` set nodes then s else atom_state w n)"
  by (induction nodes arbitrary: w) (auto simp: set_atom_intention_def change_state_def)

text \<open>
  C6, as the claim states it, fails: scheduling the controller \<open>r1\<close> whose stored
  intention is \<^verbatim>\<open>RETRY\<close> re-arms its subflow with \<^verbatim>\<open>_retry_subflow\<close>, the
  helper of the resume step, and that helper sets the controller's own intention to
  \<^verbatim>\<open>EXECUTE\<close>; the intention is not left as it was.
\<close>

theorem schedule_retry_resets_own_intention_counterexample:
  "atom_intention (esc_world RETRY) ''r1'' = RETRY
   \<and> atom_intention (snd (retry_subflow esc_env (Retry ''r1'')
        (change_state (Retry ''r1'') RETRYING (esc_world RETRY)))) ''r1'' = EXECUTE
   \<and> fst (schedule_retry esc_env (Retry ''r1'') (esc_world RETRY)) = Inr 3
   \<and> atom_intention (snd (schedule_retry esc_env (Retry ''r1'') (esc_world RETRY))) ''r1'' = EXECUTE"
  by (simp add: schedule_retry_def retry_subflow_def esc_env_def esc_world_def
      set_atom_intention_def change_state_def)

text \<open>
  C6, amended. Scheduling a retry controller whose stored intention is
  \<^verbatim>\<open>RETRY\<close> first transitions the controller's state to \<^verbatim>\<open>RETRYING\<close>, then
  re-arms its subflow exactly as the resume step does: the controller's own intention
  is set to \<^verbatim>\<open>EXECUTE\<close> and every atom of its guarded subgraph (nodes of a known
  kind, the controller not among them) is reset to \<^verbatim>\<open>PENDING\<close> with the intention
  \<^verbatim>\<open>EXECUTE\<close>; then the controller's execution is scheduled, in the world so
  prepared.
\<close>

theorem schedule_retry_rearms:
  assumes "atom_intention w (name retry) = RETRY"
    and "list_all known_kind
           (iterate_subgraph env retry (set_atom_intention (name retry) EXECUTE (change_state retry RETRYING w)))"
    and "name retry \<notin> name ` set
           (iterate_subgraph env retry (set_atom_intention (name retry) EXECUTE (change_state retry RETRYING w)))"
  shows "\<exists>w2. retry_subflow env retry (change_state retry RETRYING w) = (Inr (), w2)
           \<and> schedule_retry env retry w = retry_execute env retry w2
           \<and> atom_state w2 (name retry) = RETRYING
           \<and> atom_intention w2 (name retry) = EXECUTE
           \<and> (\<forall>node \<in> set (iterate_subgraph env retry
                   (set_atom_intention (name retry) EXECUTE (change_state retry RETRYING w))).
                 atom_state w2 (name node) = PENDING \<and> atom_intention w2 (name node) = EXECUTE)"
proof -
  define w1 where "w1 = set_atom_intention (name retry) EXECUTE (change_state retry RETRYING w)"
  define w2 where
    "w2 = fold (\<lambda>node w. set_atom_intention (name node) EXECUTE (change_state node PENDING w))
            (iterate_subgraph env retry w1) w1"
  have known: "list_all known_kind (iterate_subgraph env retry w1)"
    and excl: "name retry \<notin> name ` set (iterate_subgraph env retry w1)"
    using assms(2,3) by (simp_all add: w1_def)
  have sub: "retry_subflow env retry (change_state retry RETRYING w) = (Inr (), w2)"
    using reset_nodes_known [OF known] by (simp add: retry_subflow_def Let_def w1_def w2_def)
  have sched: "schedule_retry env retry w = retry_execute env retry w2"
    using assms(1) sub by (simp add: schedule_retry_def)
  have st: "atom_state w2 (name retry) = RETRYING"
    using excl by (simp add: w2_def state_fold_reset) (simp add: w1_def set_atom_intention_def change_state_def)
  have it: "atom_intention w2 (name retry) = EXECUTE"
    using excl by (simp add: w2_def intention_fold_reset) (simp add: w1_def set_atom_intention_def)
  have nodes: "\<forall>node \<in> set (iterate_subgraph env retry w1).
      atom_state w2 (name node) = PENDING \<and> atom_intention w2 (name node) = EXECUTE"
    by (simp add: w2_def state_fold_reset intention_fold_reset)
  show ?thesis
    using sub sched st it nodes unfolding w1_def by blast
qed

theorem schedule_retry_rearms_witness:
  "atom_intention (esc_world RETRY) (name (Retry ''r1'')) = RETRY
   \<and> iterate_subgraph esc_env (Retry ''r1'')
        (set_atom_intention (name (Retry ''r1'')) EXECUTE (change_state (Retry ''r1'') RETRYING (esc_world RETRY)))
      = [BaseTask ''t1'', Retry ''r2'', BaseTask ''t2'']
   \<and> fst (schedule_retry esc_env (Retry ''r1'') (esc_world RETRY)) = Inr 3
   \<and> map (\<lambda>n. (atom_state (snd (schedule_retry esc_env (Retry ''r1'') (esc_world RETRY))) n,
                atom_intention (snd (schedule_retry esc_env (Retry ''r1'') (esc_world RETRY))) n))
        [''r1'', ''t1'', ''r2'', ''t2'']
      = [(RETRYING, EXECUTE), (PENDING, EXECUTE), (PENDING, EXECUTE), (PENDING, EXECUTE)]"
proof -
  have h1: "atom_intention (esc_world RETRY) (name (Retry ''r1'')) = RETRY"
    by (simp add: esc_world_def)
  have sub: "iterate_subgraph esc_env (Retry ''r1'')
        (set_atom_intention (name (Retry ''r1'')) EXECUTE (change_state (Retry ''r1'') RETRYING (esc_world RETRY)))
      = [BaseTask ''t1'', Retry ''r2'', BaseTask ''t2'']"
    by (simp add: esc_env_def)
  have h2: "list_all known_kind (iterate_subgraph esc_env (Retry ''r1'')
        (set_atom_intention (name (Retry ''r1'')) EXECUTE (change_state (Retry ''r1'') RETRYING (esc_world RETRY))))"
    unfolding sub by (simp add: known_kind_def)
  have h3: "name (Retry ''r1'') \<notin> name ` set (iterate_subgraph esc_env (Retry ''r1'')
        (set_atom_intention (name (Retry ''r1'')) EXECUTE (change_state (Retry ''r1'') RETRYING (esc_world RETRY))))"
    unfolding sub by simp
  from schedule_retry_rearms [OF h1 h2 h3] obtain w2 where
    s: "schedule_retry esc_env (Retry ''r1'') (esc_world RETRY) = retry_execute esc_env (Retry ''r1'') w2"
    and st: "atom_state w2 (name (Retry ''r1'')) = RETRYING"
    and it: "atom_intention w2 (name (Retry ''r1'')) = EXECUTE"
    and nodes: "\<forall>node \<in> set (iterate_subgraph esc_env (Retry ''r1'')
        (set_atom_intention (name (Retry ''r1'')) EXECUTE (change_state (Retry ''r1'') RETRYING (esc_world RETRY)))).
          atom_state w2 (name node) = PENDING \<and> atom_intention w2 (name node) = EXECUTE"
    by blast
  have e: "retry_execute esc_env (Retry ''r1'') w2 = (Inr 3, w2)"
    by (simp add: esc_env_def)
  have "fst (schedule_retry esc_env (Retry ''r1'') (esc_world RETRY)) = Inr 3"
    and "map (\<lambda>n. (atom_state (snd (schedule_retry esc_env (Retry ''r1'') (esc_world RETRY))) n,
                atom_intention (snd (schedule_retry esc_env (Retry ''r1'') (esc_world RETRY))) n))
        [''r1'', ''t1'', ''r2'', ''t2'']
      = [(RETRYING, EXECUTE), (PENDING, EXECUTE), (PENDING, EXECUTE), (PENDING, EXECUTE)]"
    using st it nodes unfolding s e sub by simp_all
  with h1 sub show ?thesis by blast
qed

section \<open>The order of the markers\<close>

lemma after_loop_shape:
  "after_loop env failures w = (emit, g1, w1) \<Longrightarrow>
     (emit = None \<and> (\<exists>e. g1 = Raised e)) \<or> (\<exists>m. emit = Some m \<and> is_terminal m \<and> g1 = At_terminal)"
  by (auto simp: after_loop_def is_terminal_def split: option.splits sum.splits if_splits)

lemma loop_head_shape:
  "loop_head env not_done failures w = (emit, g1, w1) \<Longrightarrow>
     (emit = None \<and> (\<exists>e. g1 = Raised e))
   \<or> (\<exists>m. emit = Some m \<and> is_terminal m \<and> g1 = At_terminal)
   \<or> (emit = Some WAITING \<and> (\<exists>nd fs. g1 = At_WAITING nd fs))"
  using after_loop_shape [of env failures w emit g1 w1]
  by (auto simp: loop_head_def split: if_splits)

lemma gen_next_shape:
  assumes "gen_next env timeout (g, w) = (emit, g1, w1)"
  shows "(case g of
            Created \<Rightarrow> emit = Some RESUMING \<and> g1 = At_RESUMING
          | At_RESUMING \<Rightarrow>
              (emit = None \<and> (\<exists>e. g1 = Raised e)) \<or>
              (emit = Some SCHEDULING \<and> (\<exists>nn. g1 = At_SCHEDULING_first nn))
          | At_SCHEDULING_first nn \<Rightarrow>
              (emit = None \<and> (\<exists>e. g1 = Raised e))
            \<or> (\<exists>m. emit = Some m \<and> is_terminal m \<and> g1 = At_terminal)
            \<or> (emit = Some WAITING \<and> (\<exists>nd fs. g1 = At_WAITING nd fs))
          | At_WAITING nd fs \<Rightarrow> emit = Some ANALYZING \<and> (\<exists>d nd1. g1 = At_ANALYZING d nd1 fs)
          | At_ANALYZING d nd fs \<Rightarrow>
              (emit = Some SCHEDULING \<and> (\<exists>nn fs1. g1 = At_SCHEDULING nn nd fs1))
            \<or> (emit = None \<and> (\<exists>e. g1 = Raised e))
            \<or> (\<exists>m. emit = Some m \<and> is_terminal m \<and> g1 = At_terminal)
            \<or> (emit = Some WAITING \<and> (\<exists>nd fs. g1 = At_WAITING nd fs))
          | At_SCHEDULING nn nd fs \<Rightarrow>
              (emit = None \<and> (\<exists>e. g1 = Raised e))
            \<or> (\<exists>m. emit = Some m \<and> is_terminal m \<and> g1 = At_terminal)
            \<or> (emit = Some WAITING \<and> (\<exists>nd fs. g1 = At_WAITING nd fs))
          | At_terminal \<Rightarrow> emit = None \<and> g1 = Finished
          | Finished \<Rightarrow> emit = None \<and> g1 = Finished
          | Raised e \<Rightarrow> emit = None \<and> g1 = Finished)"
proof (cases g)
  case Created
  with assms show ?thesis by auto
next
  case At_RESUMING
  with assms show ?thesis
    by (auto simp: Let_def split: prod.splits sum.splits)
next
  case (At_SCHEDULING_first nn)
  with assms show ?thesis
    by (auto simp: Let_def split: prod.splits if_splits dest: loop_head_shape)
next
  case (At_WAITING nd fs)
  with assms show ?thesis
    by (auto simp: Let_def split: prod.splits)
next
  case (At_ANALYZING d nd fs)
  with assms show ?thesis
    by (auto simp: Let_def split: prod.splits if_splits dest: loop_head_shape)
next
  case (At_SCHEDULING nn nd fs)
  with assms show ?thesis
    by (auto simp: Let_def split: prod.splits if_splits dest: loop_head_shape)
next
  case At_terminal
  with assms show ?thesis by auto
next
  case Finished
  with assms show ?thesis by auto
next
  case (Raised e)
  with assms show ?thesis by auto
qed

lemma loop_pattern_last:
  "loop_pattern ms \<Longrightarrow> is_terminal (last ms) \<and> (\<forall>m \<in> set (butlast ms). \<not> is_terminal m)"
proof (induction ms rule: loop_pattern.induct)
  case 1
  then show ?case by simp
next
  case (2 m)
  then show ?case by simp
next
  case (3 m1 m2 ms)
  from "3.prems" have h: "m1 = WAITING" "m2 = ANALYZING" by simp_all
  from "3.prems" consider (a) "loop_pattern ms" | (b) ms' where "ms = SCHEDULING # ms'" "loop_pattern ms'"
    by (auto split: list.splits)
  then show ?case
  proof cases
    case a
    then have "ms \<noteq> []" by auto
    with a "3.IH"(1) h show ?thesis by (simp add: is_terminal_def)
  next
    case b
    then have "ms' \<noteq> []" by auto
    with b "3.IH"(2) h show ?thesis by (simp add: is_terminal_def)
  qed
qed

lemma expected_At_WAITING:
  "expected (At_WAITING nd fs) ms \<Longrightarrow> loop_pattern (WAITING # ms)"
  by (cases ms) (auto simp: after_analyzing_def)

lemma expected_At_terminal: "expected At_terminal ms \<Longrightarrow> is_terminal m \<Longrightarrow> loop_pattern (m # ms)"
  by simp

lemma after_analyzing_SCHEDULING: "loop_pattern ms \<Longrightarrow> after_analyzing (SCHEDULING # ms)"
  by (simp add: after_analyzing_def)

lemma run_expected:
  "run env timeout n (g, w) = (ms, Finished, w') \<Longrightarrow> expected g ms"
proof (induction n arbitrary: g w ms)
  case 0
  then show ?case by simp
next
  case (Suc n)
  obtain emit g1 w1 where step: "gen_next env timeout (g, w) = (emit, g1, w1)"
    by (cases "gen_next env timeout (g, w)")
  note shape = gen_next_shape [OF step]
  show ?case
  proof (cases emit)
    case None
    with Suc.prems step have "ms = []" "g1 = Finished" by auto
    with shape None show ?thesis by (cases g) auto
  next
    case (Some m)
    obtain ms1 g2 w2 where rest: "run env timeout n (g1, w1) = (ms1, g2, w2)"
      by (cases "run env timeout n (g1, w1)")
    with Suc.prems step Some have ms: "ms = m # ms1" and fin: "g2 = Finished" "w2 = w'" by auto
    from rest fin have ih: "expected g1 ms1" by (simp add: Suc.IH)
    show ?thesis
    proof (cases g)
      case Created
      with shape Some ih ms show ?thesis
        by (cases ms1) (auto simp: marker_pattern_def)
    next
      case At_RESUMING
      with shape Some ih ms show ?thesis by auto
    next
      case (At_SCHEDULING_first nn)
      with shape Some have "(is_terminal m \<and> g1 = At_terminal) \<or> (m = WAITING \<and> (\<exists>nd fs. g1 = At_WAITING nd fs))"
        by auto
      with ih ms At_SCHEDULING_first show ?thesis
        using expected_At_WAITING expected_At_terminal by fastforce
    next
      case (At_WAITING nd fs)
      with shape Some ih ms show ?thesis by auto
    next
      case (At_ANALYZING d nd fs)
      with shape Some have "(m = SCHEDULING \<and> (\<exists>nn fs1. g1 = At_SCHEDULING nn nd fs1))
          \<or> (is_terminal m \<and> g1 = At_terminal) \<or> (m = WAITING \<and> (\<exists>nd fs. g1 = At_WAITING nd fs))"
        by auto
      then consider (s) nn fs1 where "m = SCHEDULING" "g1 = At_SCHEDULING nn nd fs1"
        | (t) "is_terminal m" "g1 = At_terminal" | (w) nd fs where "m = WAITING" "g1 = At_WAITING nd fs"
        by blast
      then show ?thesis
      proof cases
        case s
        with ih ms At_ANALYZING show ?thesis by (simp add: after_analyzing_SCHEDULING)
      next
        case t
        with ih ms At_ANALYZING show ?thesis by (simp add: after_analyzing_def)
      next
        case w
        with ih have "loop_pattern (WAITING # ms1)" by (simp add: expected_At_WAITING)
        with w ms At_ANALYZING show ?thesis by (simp add: after_analyzing_def)
      qed
    next
      case (At_SCHEDULING nn nd fs)
      with shape Some have "(is_terminal m \<and> g1 = At_terminal) \<or> (m = WAITING \<and> (\<exists>nd fs. g1 = At_WAITING nd fs))"
        by auto
      with ih ms At_SCHEDULING show ?thesis
        using expected_At_WAITING expected_At_terminal by fastforce
    next
      case At_terminal
      with shape Some show ?thesis by auto
    next
      case Finished
      with shape Some show ?thesis by auto
    next
      case (Raised e)
      with shape Some show ?thesis by auto
    qed
  qed
qed

lemma expected_exists: "\<exists>rest. expected g rest"
proof (cases g)
  case Created
  have "expected Created [RESUMING, SCHEDULING, SUCCESS]"
    by (simp add: marker_pattern_def is_terminal_def)
  with Created show ?thesis by blast
next
  case At_RESUMING
  have "expected At_RESUMING [SCHEDULING, SUCCESS]" by (simp add: is_terminal_def)
  with At_RESUMING show ?thesis by blast
next
  case (At_SCHEDULING_first nn)
  have "expected (At_SCHEDULING_first nn) [SUCCESS]" by (simp add: is_terminal_def)
  with At_SCHEDULING_first show ?thesis by blast
next
  case (At_WAITING nd fs)
  have "expected (At_WAITING nd fs) [ANALYZING, SUCCESS]"
    by (simp add: after_analyzing_def is_terminal_def)
  with At_WAITING show ?thesis by blast
next
  case (At_ANALYZING d nd fs)
  have "expected (At_ANALYZING d nd fs) [SUCCESS]" by (simp add: after_analyzing_def is_terminal_def)
  with At_ANALYZING show ?thesis by blast
next
  case (At_SCHEDULING nn nd fs)
  have "expected (At_SCHEDULING nn nd fs) [SUCCESS]" by (simp add: is_terminal_def)
  with At_SCHEDULING show ?thesis by blast
next
  case At_terminal
  then show ?thesis by simp
next
  case Finished
  then show ?thesis by simp
next
  case (Raised e)
  then show ?thesis by simp
qed

text \<open>Whatever the outcome, the markers yielded so far are the beginning of a
  sequence in the order of the pattern.\<close>

lemma run_expected_prefix:
  "run env timeout n (g, w) = (ms, g', w') \<Longrightarrow> \<exists>rest. expected g (ms @ rest)"
proof (induction n arbitrary: g w ms)
  case 0
  then show ?case by (simp add: expected_exists)
next
  case (Suc n)
  obtain emit g1 w1 where step: "gen_next env timeout (g, w) = (emit, g1, w1)"
    by (cases "gen_next env timeout (g, w)")
  note shape = gen_next_shape [OF step]
  show ?case
  proof (cases emit)
    case None
    with Suc.prems step have "ms = []" by auto
    then show ?thesis by (simp add: expected_exists)
  next
    case (Some m)
    obtain ms1 g2 w2 where rest: "run env timeout n (g1, w1) = (ms1, g2, w2)"
      by (cases "run env timeout n (g1, w1)")
    with Suc.prems step Some have ms: "ms = m # ms1" and fin: "g2 = g'" "w2 = w'" by auto
    from rest fin Suc.IH obtain r where ih: "expected g1 (ms1 @ r)" by blast
    have "expected g (m # ms1 @ r)"
    proof (cases g)
      case Created
      with shape Some ih show ?thesis
        by (cases "ms1 @ r") (auto simp: marker_pattern_def)
    next
      case At_RESUMING
      with shape Some ih show ?thesis by auto
    next
      case (At_SCHEDULING_first nn)
      with shape Some have "(is_terminal m \<and> g1 = At_terminal) \<or> (m = WAITING \<and> (\<exists>nd fs. g1 = At_WAITING nd fs))"
        by auto
      with ih At_SCHEDULING_first show ?thesis
        using expected_At_WAITING expected_At_terminal by fastforce
    next
      case (At_WAITING nd fs)
      with shape Some ih show ?thesis by auto
    next
      case (At_ANALYZING d nd fs)
      with shape Some have "(m = SCHEDULING \<and> (\<exists>nn fs1. g1 = At_SCHEDULING nn nd fs1))
          \<or> (is_terminal m \<and> g1 = At_terminal) \<or> (m = WAITING \<and> (\<exists>nd fs. g1 = At_WAITING nd fs))"
        by auto
      then consider (s) nn fs1 where "m = SCHEDULING" "g1 = At_SCHEDULING nn nd fs1"
        | (t) "is_terminal m" "g1 = At_terminal" | (w) nd fs where "m = WAITING" "g1 = At_WAITING nd fs"
        by blast
      then show ?thesis
      proof cases
        case s
        with ih At_ANALYZING show ?thesis by (simp add: after_analyzing_SCHEDULING)
      next
        case t
        with ih At_ANALYZING show ?thesis by (simp add: after_analyzing_def)
      next
        case w
        with ih have "loop_pattern (WAITING # ms1 @ r)" by (simp add: expected_At_WAITING)
        with w At_ANALYZING show ?thesis by (simp add: after_analyzing_def)
      qed
    next
      case (At_SCHEDULING nn nd fs)
      with shape Some have "(is_terminal m \<and> g1 = At_terminal) \<or> (m = WAITING \<and> (\<exists>nd fs. g1 = At_WAITING nd fs))"
        by auto
      with ih At_SCHEDULING show ?thesis
        using expected_At_WAITING expected_At_terminal by fastforce
    next
      case At_terminal
      with shape Some show ?thesis by auto
    next
      case Finished
      with shape Some show ?thesis by auto
    next
      case (Raised e)
      with shape Some show ?thesis by auto
    qed
    with ms show ?thesis by auto
  qed
qed

lemma marker_pattern_last:
  assumes "marker_pattern ms"
  shows "is_terminal (last ms) \<and> (\<forall>m \<in> set (butlast ms). \<not> is_terminal m)"
proof -
  from assms obtain rest where ms: "ms = RESUMING # SCHEDULING # rest" and lp: "loop_pattern rest"
    by (auto simp: marker_pattern_def split: list.splits)
  from lp have "rest \<noteq> []" by auto
  with loop_pattern_last [OF lp] ms show ?thesis
    by (simp add: is_terminal_def)
qed

text \<open>On the stalled flow the generator goes round and round: a wait that resolves
  nothing, an analyzing step with nothing to analyze, and the wait again, in the same
  state and the same world.\<close>

lemma stalled_wait:
  "gen_next stalled_env timeout (At_WAITING nd fs, w) = (Some ANALYZING, At_ANALYZING [] nd fs, w)"
  by (simp add: stalled_env_def demo_env_def Let_def)

lemma stalled_analyze:
  "nd \<noteq> [] \<Longrightarrow>
     gen_next stalled_env timeout (At_ANALYZING [] nd fs, w) = (Some WAITING, At_WAITING nd fs, w)"
  by (simp add: stalled_env_def demo_env_def analyze_def loop_head_def)

lemma stalled_round:
  "nd \<noteq> [] \<Longrightarrow>
     run stalled_env timeout (Suc (Suc n)) (At_WAITING nd fs, w) =
       (case run stalled_env timeout n (At_WAITING nd fs, w) of
          (ms, g, w') \<Rightarrow> (ANALYZING # WAITING # ms, g, w'))"
  by (simp add: stalled_wait stalled_analyze split: prod.splits del: gen_next.simps)

lemma stalled_rounds:
  "nd \<noteq> [] \<Longrightarrow>
     run stalled_env timeout (2 * k) (At_WAITING nd fs, w) =
       (concat (replicate k [ANALYZING, WAITING]), At_WAITING nd fs, w)"
proof (induction k)
  case 0
  show ?case by simp
next
  case (Suc k)
  have "run stalled_env timeout (2 * Suc k) (At_WAITING nd fs, w)
          = run stalled_env timeout (Suc (Suc (2 * k))) (At_WAITING nd fs, w)"
    by simp
  also have "\<dots> = (case run stalled_env timeout (2 * k) (At_WAITING nd fs, w) of
                     (ms, g, w') \<Rightarrow> (ANALYZING # WAITING # ms, g, w'))"
    using Suc.prems by (rule stalled_round)
  also have "\<dots> = (concat (replicate (Suc k) [ANALYZING, WAITING]), At_WAITING nd fs, w)"
    using Suc by simp
  finally show ?case .
qed

lemma stalled_start:
  "run stalled_env None (Suc (Suc (Suc n))) (Created, demo_world EXECUTE PENDING []) =
     (case run stalled_env None n
             (At_WAITING [1, 4] [],
              change_state (BaseTask ''z'') RUNNING
                (change_state (BaseTask ''v'') RUNNING (demo_world EXECUTE PENDING []))) of
        (ms, g, w') \<Rightarrow> (RESUMING # SCHEDULING # WAITING # ms, g, w'))"
proof -
  have s2: "gen_next stalled_env None (At_RESUMING, demo_world EXECUTE PENDING [])
      = (Some SCHEDULING, At_SCHEDULING_first [BaseTask ''v'', BaseTask ''z''], demo_world EXECUTE PENDING [])"
    by (simp add: stalled_env_def demo_env_def prepare_flow_for_resume_def demo_nodes_def get_state_def
        demo_world_def in_flight_nodes_def demo_ready_def demo_preds_def demo_succs_def set_update_def
        set_add_def Let_def)
  have s3: "gen_next stalled_env None
        (At_SCHEDULING_first [BaseTask ''v'', BaseTask ''z''], demo_world EXECUTE PENDING [])
      = (Some WAITING, At_WAITING [1, 4] [],
         change_state (BaseTask ''z'') RUNNING
           (change_state (BaseTask ''v'') RUNNING (demo_world EXECUTE PENDING [])))"
    by (simp add: stalled_env_def demo_env_def schedule_def schedule_node_def schedule_task_def
        demo_nodes_def demo_id_def demo_world_def set_add_def loop_head_def is_running_def
        change_state_def Let_def)
  show ?thesis
    by (simp del: gen_next.simps add: gen_next.simps(1) s2 s3 split: prod.splits)
qed

text \<open>However many markers are asked for, the run on the stalled flow has yielded no
  terminal marker, has not raised and is waiting for the two futures it scheduled.\<close>

lemma stalled_run_never_ends:
  "execute_iter stalled_env None (3 + 2 * k) (demo_world EXECUTE PENDING []) =
     (RESUMING # SCHEDULING # WAITING # concat (replicate k [ANALYZING, WAITING]),
      At_WAITING [1, 4] [],
      change_state (BaseTask ''z'') RUNNING
        (change_state (BaseTask ''v'') RUNNING (demo_world EXECUTE PENDING [])))"
proof -
  have "3 + 2 * k = Suc (Suc (Suc (2 * k)))" by simp
  then show ?thesis
    unfolding execute_iter_def by (simp only: stalled_start) (simp add: stalled_rounds)
qed

text \<open>
  C2, as the claim states it, fails: a run need not end. On the stalled flow the
  generator has yielded, after a thousand and three calls, as many markers, none of them
  terminal, and has not raised; it is suspended at \<^verbatim>\<open>WAITING\<close> with both futures
  in flight, and two more calls bring it back to exactly this state and this world, so
  no terminal marker ever follows.
\<close>

theorem stalled_run_has_no_terminal_marker_counterexample:
  "execute_iter stalled_env None (3 + 2 * 500) (demo_world EXECUTE PENDING []) =
     (RESUMING # SCHEDULING # WAITING # concat (replicate 500 [ANALYZING, WAITING]),
      At_WAITING [1, 4] [],
      change_state (BaseTask ''z'') RUNNING
        (change_state (BaseTask ''v'') RUNNING (demo_world EXECUTE PENDING [])))
   \<and> gen_next stalled_env None
        (At_WAITING [1, 4] [],
         change_state (BaseTask ''z'') RUNNING
           (change_state (BaseTask ''v'') RUNNING (demo_world EXECUTE PENDING [])))
     = (Some ANALYZING, At_ANALYZING [] [1, 4] [],
        change_state (BaseTask ''z'') RUNNING
          (change_state (BaseTask ''v'') RUNNING (demo_world EXECUTE PENDING [])))
   \<and> gen_next stalled_env None
        (At_ANALYZING [] [1, 4] [],
         change_state (BaseTask ''z'') RUNNING
           (change_state (BaseTask ''v'') RUNNING (demo_world EXECUTE PENDING [])))
     = (Some WAITING, At_WAITING [1, 4] [],
        change_state (BaseTask ''z'') RUNNING
          (change_state (BaseTask ''v'') RUNNING (demo_world EXECUTE PENDING [])))
   \<and> fst (execute_iter stalled_env None 9 (demo_world EXECUTE PENDING []))
     = [RESUMING, SCHEDULING, WAITING, ANALYZING, WAITING, ANALYZING, WAITING, ANALYZING, WAITING]"
proof -
  have a: "execute_iter stalled_env None (3 + 2 * 500) (demo_world EXECUTE PENDING []) =
     (RESUMING # SCHEDULING # WAITING # concat (replicate 500 [ANALYZING, WAITING]),
      At_WAITING [1, 4] [],
      change_state (BaseTask ''z'') RUNNING
        (change_state (BaseTask ''v'') RUNNING (demo_world EXECUTE PENDING [])))"
    by (rule stalled_run_never_ends)
  have b: "fst (execute_iter stalled_env None 9 (demo_world EXECUTE PENDING []))
     = [RESUMING, SCHEDULING, WAITING, ANALYZING, WAITING, ANALYZING, WAITING, ANALYZING, WAITING]"
    by code_simp
  have c: "([1, 4] :: future list) \<noteq> []" by simp
  show ?thesis
    using a b stalled_wait [of None "[1, 4]" "[]"] stalled_analyze [OF c, of None "[]"]
    by blast
qed

text \<open>
  C2, amended. Whatever the collaborators do and however many markers are asked for,
  the markers of a run of \<^verbatim>\<open>execute_iter\<close> that returns (the generator is exhausted
  without raising) are \<^verbatim>\<open>RESUMING\<close>, \<^verbatim>\<open>SCHEDULING\<close>, any number of rounds
  \<^verbatim>\<open>WAITING\<close>, \<^verbatim>\<open>ANALYZING\<close> and possibly \<^verbatim>\<open>SCHEDULING\<close>, and one
  terminal marker; the terminal marker is the last one and none comes before it. The
  markers of any run, also one that raises or never ends, are the beginning of such a
  sequence.
\<close>

theorem execute_iter_marker_order:
  assumes "execute_iter env timeout n w = (ms, g, w')"
  shows "(g = Finished \<longrightarrow>
            marker_pattern ms \<and> is_terminal (last ms) \<and> (\<forall>m \<in> set (butlast ms). \<not> is_terminal m))
       \<and> (\<exists>rest. marker_pattern (ms @ rest))"
proof -
  have a: "marker_pattern ms" if "g = Finished"
  proof -
    from assms that have "expected Created ms"
      unfolding execute_iter_def by (intro run_expected) simp
    then show ?thesis by simp
  qed
  from assms have "\<exists>rest. expected Created (ms @ rest)"
    unfolding execute_iter_def by (rule run_expected_prefix)
  then have b: "\<exists>rest. marker_pattern (ms @ rest)" by simp
  from a b marker_pattern_last [of ms] show ?thesis by blast
qed

theorem execute_iter_marker_order_witness:
  "execute_iter demo_env None 30 (demo_world EXECUTE PENDING [])
     = ([RESUMING, SCHEDULING, WAITING, ANALYZING, SCHEDULING, WAITING, ANALYZING,
         WAITING, ANALYZING, SCHEDULING, WAITING, ANALYZING, SUCCESS],
        Finished, snd (snd (execute_iter demo_env None 30 (demo_world EXECUTE PENDING []))))
   \<and> marker_pattern [RESUMING, SCHEDULING, WAITING, ANALYZING, SCHEDULING, WAITING, ANALYZING,
         WAITING, ANALYZING, SCHEDULING, WAITING, ANALYZING, SUCCESS]
   \<and> is_terminal SUCCESS"
proof -
  have ms: "fst (execute_iter demo_env None 30 (demo_world EXECUTE PENDING [])) =
      [RESUMING, SCHEDULING, WAITING, ANALYZING, SCHEDULING, WAITING, ANALYZING,
       WAITING, ANALYZING, SCHEDULING, WAITING, ANALYZING, SUCCESS]"
    by code_simp
  have g: "fst (snd (execute_iter demo_env None 30 (demo_world EXECUTE PENDING []))) = Finished"
    by code_simp
  have r: "execute_iter demo_env None 30 (demo_world EXECUTE PENDING [])
     = ([RESUMING, SCHEDULING, WAITING, ANALYZING, SCHEDULING, WAITING, ANALYZING,
         WAITING, ANALYZING, SCHEDULING, WAITING, ANALYZING, SUCCESS],
        Finished, snd (snd (execute_iter demo_env None 30 (demo_world EXECUTE PENDING []))))"
    using ms g by (metis prod.collapse)
  from execute_iter_marker_order [OF r] r show ?thesis
    by simp
qed

section \<open>Leaving the loop\<close>

text \<open>
  C3. When the test of the loop finds nothing in flight: with accumulated failures the
  generator raises and yields no marker (the one failure itself if there is exactly
  one, the aggregate of all of them if there are more); with none, the marker is
  \<^verbatim>\<open>SUSPENDED\<close> when the analyzer reports ready nodes, \<^verbatim>\<open>SUCCESS\<close> when it
  reports none and overall success, \<^verbatim>\<open>REVERTED\<close> when it reports none and no
  overall success; that marker is the last.
\<close>

theorem loop_exit_outcome:
  "(failures = [f] \<longrightarrow> loop_head env [] failures w = (None, Raised f, w))
 \<and> (2 \<le> length failures \<longrightarrow> loop_head env [] failures w = (None, Raised (WrappedFailure failures), w))
 \<and> (failures = [] \<and> get_next_nodes env None w = Inr nodes \<and> nodes \<noteq> [] \<longrightarrow>
      loop_head env [] failures w = (Some SUSPENDED, At_terminal, w))
 \<and> (failures = [] \<and> get_next_nodes env None w = Inr [] \<and> is_success env w \<longrightarrow>
      loop_head env [] failures w = (Some SUCCESS, At_terminal, w))
 \<and> (failures = [] \<and> get_next_nodes env None w = Inr [] \<and> \<not> is_success env w \<longrightarrow>
      loop_head env [] failures w = (Some REVERTED, At_terminal, w))
 \<and> gen_next env timeout (At_terminal, w) = (None, Finished, w)"
proof (intro conjI impI)
  assume "failures = [f]"
  then show "loop_head env [] failures w = (None, Raised f, w)"
    by (simp add: loop_head_def after_loop_def reraise_if_any_def)
next
  assume "2 \<le> length failures"
  then obtain a b fs where "failures = a # b # fs"
    by (cases failures; cases "tl failures") auto
  then show "loop_head env [] failures w = (None, Raised (WrappedFailure failures), w)"
    by (simp add: loop_head_def after_loop_def reraise_if_any_def)
next
  assume "failures = [] \<and> get_next_nodes env None w = Inr nodes \<and> nodes \<noteq> []"
  then show "loop_head env [] failures w = (Some SUSPENDED, At_terminal, w)"
    by (simp add: loop_head_def after_loop_def)
next
  assume "failures = [] \<and> get_next_nodes env None w = Inr [] \<and> is_success env w"
  then show "loop_head env [] failures w = (Some SUCCESS, At_terminal, w)"
    by (simp add: loop_head_def after_loop_def)
next
  assume "failures = [] \<and> get_next_nodes env None w = Inr [] \<and> \<not> is_success env w"
  then show "loop_head env [] failures w = (Some REVERTED, At_terminal, w)"
    by (simp add: loop_head_def after_loop_def)
next
  show "gen_next env timeout (At_terminal, w) = (None, Finished, w)"
    by simp
qed

theorem loop_exit_outcome_witness:
  "loop_head demo_env [] [External ''boom''] (demo_world EXECUTE PENDING [])
     = (None, Raised (External ''boom''), demo_world EXECUTE PENDING [])
 \<and> loop_head demo_env [] [External ''boom'', TypeError (UnknownNode ''u'')] (demo_world EXECUTE PENDING [])
     = (None, Raised (WrappedFailure [External ''boom'', TypeError (UnknownNode ''u'')]),
        demo_world EXECUTE PENDING [])
 \<and> get_next_nodes demo_env None (demo_world EXECUTE PENDING []) = Inr [BaseTask ''v'', BaseTask ''z'']
 \<and> loop_head demo_env [] [] (demo_world EXECUTE PENDING [])
     = (Some SUSPENDED, At_terminal, demo_world EXECUTE PENDING [])
 \<and> get_next_nodes demo_env None (demo_world EXECUTE SUCCESS []) = Inr []
 \<and> is_success demo_env (demo_world EXECUTE SUCCESS [])
 \<and> loop_head demo_env [] [] (demo_world EXECUTE SUCCESS [])
     = (Some SUCCESS, At_terminal, demo_world EXECUTE SUCCESS [])
 \<and> get_next_nodes demo_env None (demo_world REVERT REVERTED []) = Inr []
 \<and> \<not> is_success demo_env (demo_world REVERT REVERTED [])
 \<and> loop_head demo_env [] [] (demo_world REVERT REVERTED [])
     = (Some REVERTED, At_terminal, demo_world REVERT REVERTED [])"
proof -
  have n1: "get_next_nodes demo_env None (demo_world EXECUTE PENDING []) = Inr [BaseTask ''v'', BaseTask ''z'']"
    and n2: "get_next_nodes demo_env None (demo_world EXECUTE SUCCESS []) = Inr []"
    and n3: "get_next_nodes demo_env None (demo_world REVERT REVERTED []) = Inr []"
    by (simp_all add: demo_env_def demo_world_def demo_nodes_def demo_ready_def demo_preds_def demo_succs_def)
  have s2: "is_success demo_env (demo_world EXECUTE SUCCESS [])"
    and s3: "\<not> is_success demo_env (demo_world REVERT REVERTED [])"
    by (simp_all add: demo_env_def demo_world_def demo_nodes_def)
  have a: "loop_head demo_env [] [External ''boom''] (demo_world EXECUTE PENDING [])
     = (None, Raised (External ''boom''), demo_world EXECUTE PENDING [])"
    using loop_exit_outcome [of "[External ''boom'']" "External ''boom''" demo_env "demo_world EXECUTE PENDING []"]
    by simp
  have b: "loop_head demo_env [] [External ''boom'', TypeError (UnknownNode ''u'')] (demo_world EXECUTE PENDING [])
     = (None, Raised (WrappedFailure [External ''boom'', TypeError (UnknownNode ''u'')]),
        demo_world EXECUTE PENDING [])"
    using loop_exit_outcome [of "[External ''boom'', TypeError (UnknownNode ''u'')]" _ demo_env
        "demo_world EXECUTE PENDING []"]
    by simp
  have c: "loop_head demo_env [] [] (demo_world EXECUTE PENDING [])
     = (Some SUSPENDED, At_terminal, demo_world EXECUTE PENDING [])"
    using loop_exit_outcome [of "[]" _ demo_env "demo_world EXECUTE PENDING []" "[BaseTask ''v'', BaseTask ''z'']"] n1
    by simp
  have d: "loop_head demo_env [] [] (demo_world EXECUTE SUCCESS [])
     = (Some SUCCESS, At_terminal, demo_world EXECUTE SUCCESS [])"
    using loop_exit_outcome [of "[]" _ demo_env "demo_world EXECUTE SUCCESS []"] n2 s2
    by simp
  have e: "loop_head demo_env [] [] (demo_world REVERT REVERTED [])
     = (Some REVERTED, At_terminal, demo_world REVERT REVERTED [])"
    using loop_exit_outcome [of "[]" _ demo_env "demo_world REVERT REVERTED []"] n3 s3
    by simp
  show ?thesis
    using a b c d e n1 n2 n3 s2 s3 by blast
qed

section \<open>Errors of the scheduling step\<close>




section \<open>The analyzing step\<close>

lemma analyze_future_failures:
  "analyze_future env fut (next_nodes, failures, w) = (next_nodes1, failures1, w1) \<Longrightarrow>
     \<exists>new. failures1 = failures @ new"
  by (auto simp: analyze_future_def handle_result_def split: sum.splits prod.splits result.splits if_splits)

lemma fold_analyze_future_failures:
  "fold (analyze_future env) resolved (next_nodes, failures, w) = (next_nodes1, failures1, w1) \<Longrightarrow>
     \<exists>new. failures1 = failures @ new"
proof (induction resolved arbitrary: next_nodes failures w)
  case Nil
  then show ?case by simp
next
  case (Cons fut resolved)
  obtain nn fs w2 where step: "analyze_future env fut (next_nodes, failures, w) = (nn, fs, w2)"
    by (cases "analyze_future env fut (next_nodes, failures, w)")
  from analyze_future_failures [OF step] obtain new1 where n1: "fs = failures @ new1" ..
  from Cons.prems step have "fold (analyze_future env) resolved (nn, fs, w2) = (next_nodes1, failures1, w1)"
    by simp
  from Cons.IH [OF this] obtain new2 where "failures1 = fs @ new2" ..
  with n1 show ?case by simp
qed

lemma analyze_failures:
  "analyze env resolved failures w = (next_nodes, failures1, w1) \<Longrightarrow> \<exists>new. failures1 = failures @ new"
  unfolding analyze_def by (rule fold_analyze_future_failures)

text \<open>
  C9, as the claim states it, fails. In the run of the demo flow in which the execution
  of \<open>x\<close> fails, the ninth marker is the \<^verbatim>\<open>ANALYZING\<close> of the future of \<open>x\<close>, which
  has resolved with a \<^verbatim>\<open>Failure\<close>; the escalation returns normally, so the
  \<^verbatim>\<open>else\<close> clause of the \<^verbatim>\<open>try\<close> asks the analyzer for the nodes after
  \<open>x\<close>: the answer, \<open>x\<close> and \<open>z\<close> to be reverted, is the new candidate set and the
  next marker is \<^verbatim>\<open>SCHEDULING\<close>.
\<close>

theorem failed_future_queries_successors_counterexample:
  "fst (snd (execute_iter demo_env None 9 (demo_world EXECUTE PENDING [2]))) = At_ANALYZING [2] [] []
   \<and> future_result demo_env 2 (snd (snd (execute_iter demo_env None 9 (demo_world EXECUTE PENDING [2]))))
       = Inr (BaseTask ''x'', ex_EXECUTED, Failure (External ''boom''))
   \<and> fst (analyze demo_env [2] [] (snd (snd (execute_iter demo_env None 9 (demo_world EXECUTE PENDING [2])))))
       = [BaseTask ''x'', BaseTask ''z'']
   \<and> fst (snd (analyze demo_env [2] [] (snd (snd (execute_iter demo_env None 9 (demo_world EXECUTE PENDING [2]))))))
       = []
   \<and> fst (execute_iter demo_env None 10 (demo_world EXECUTE PENDING [2]))
       = [RESUMING, SCHEDULING, WAITING, ANALYZING, SCHEDULING, WAITING, ANALYZING, WAITING, ANALYZING,
          SCHEDULING]"
  by code_simp

text \<open>
  C9, amended. In the analyzing step the analyzer is asked for the nodes after the
  completed atom exactly for the resolved futures whose handling raised nothing, that is
  \<^verbatim>\<open>future.result()\<close>, the completion of a task and, for a failed execution, the
  escalation all returned; the result may be a normal value or a \<^verbatim>\<open>Failure\<close>. The
  nodes reported are accumulated, and an exception of the query is one more failure. A
  future whose handling raised adds the exception to the failures and nothing to the
  candidate set.
\<close>

theorem successor_query_after_handling:
  "(future_result env fut w = Inr (node, event, result) \<and>
    handle_result env node event result failures w = (Inr failures1, w1) \<and>
    get_next_nodes env (Some node) w1 = Inr more_nodes \<longrightarrow>
      analyze_future env fut (next_nodes, failures, w) = (set_update next_nodes more_nodes, failures1, w1))
 \<and> (future_result env fut w = Inr (node, event, result) \<and>
    handle_result env node event result failures w = (Inr failures1, w1) \<and>
    get_next_nodes env (Some node) w1 = Inl e \<longrightarrow>
      analyze_future env fut (next_nodes, failures, w) = (next_nodes, failures1 @ [e], w1))
 \<and> (future_result env fut w = Inl e \<longrightarrow>
      analyze_future env fut (next_nodes, failures, w) = (next_nodes, failures @ [e], w))
 \<and> (future_result env fut w = Inr (node, event, result) \<and>
    handle_result env node event result failures w = (Inl e, w1) \<longrightarrow>
      analyze_future env fut (next_nodes, failures, w) = (next_nodes, failures @ [e], w1))
 \<and> (complete_task env (BaseTask n) event (Value v) w = (Inr (), w1) \<longrightarrow>
      handle_result env (BaseTask n) event (Value v) failures w = (Inr failures, w1))
 \<and> (complete_task env (BaseTask n) ex_EXECUTED (Failure f) w = (Inr (), w1) \<and>
    process_atom_failure env (recursion_limit env) (BaseTask n) (Failure f) w1 = (Inr (), w2) \<longrightarrow>
      handle_result env (BaseTask n) ex_EXECUTED (Failure f) failures w = (Inr failures, w2))
 \<and> (complete_task env (BaseTask n) ex_REVERTED (Failure f) w = (Inr (), w1) \<longrightarrow>
      handle_result env (BaseTask n) ex_REVERTED (Failure f) failures w = (Inr (failures @ [f]), w1))"
  by (simp add: analyze_future_def handle_result_def)

theorem successor_query_after_handling_witness:
  "future_result demo_env 2 (change_state (BaseTask ''x'') RUNNING (demo_world EXECUTE PENDING [2]))
     = Inr (BaseTask ''x'', ex_EXECUTED, Failure (External ''boom''))
   \<and> fst (handle_result demo_env (BaseTask ''x'') ex_EXECUTED (Failure (External ''boom'')) []
            (change_state (BaseTask ''x'') RUNNING (demo_world EXECUTE PENDING [2]))) = Inr []
   \<and> get_next_nodes demo_env (Some (BaseTask ''x''))
        (snd (handle_result demo_env (BaseTask ''x'') ex_EXECUTED (Failure (External ''boom'')) []
            (change_state (BaseTask ''x'') RUNNING (demo_world EXECUTE PENDING [2])))) = Inr [BaseTask ''x'']
   \<and> fst (analyze_future demo_env 2 ([], [], change_state (BaseTask ''x'') RUNNING (demo_world EXECUTE PENDING [2]))) = [BaseTask ''x'']
   \<and> fst (snd (analyze_future demo_env 2 ([], [], change_state (BaseTask ''x'') RUNNING (demo_world EXECUTE PENDING [2])))) = []
   \<and> future_result esc_env 2 (esc_world EXECUTE) = Inl (External ''no such future'')
   \<and> analyze_future esc_env 2 ([], [], esc_world EXECUTE)
       = ([], [External ''no such future''], esc_world EXECUTE)"
proof -
  have a: "future_result demo_env 2 (change_state (BaseTask ''x'') RUNNING (demo_world EXECUTE PENDING [2]))
     = Inr (BaseTask ''x'', ex_EXECUTED, Failure (External ''boom''))"
    by code_simp
  have b: "fst (handle_result demo_env (BaseTask ''x'') ex_EXECUTED (Failure (External ''boom'')) []
            (change_state (BaseTask ''x'') RUNNING (demo_world EXECUTE PENDING [2]))) = Inr []"
    by code_simp
  have c: "get_next_nodes demo_env (Some (BaseTask ''x''))
        (snd (handle_result demo_env (BaseTask ''x'') ex_EXECUTED (Failure (External ''boom'')) []
            (change_state (BaseTask ''x'') RUNNING (demo_world EXECUTE PENDING [2])))) = Inr [BaseTask ''x'']"
    by code_simp
  have b': "handle_result demo_env (BaseTask ''x'') ex_EXECUTED (Failure (External ''boom'')) []
            (change_state (BaseTask ''x'') RUNNING (demo_world EXECUTE PENDING [2]))
      = (Inr [], snd (handle_result demo_env (BaseTask ''x'') ex_EXECUTED (Failure (External ''boom'')) []
            (change_state (BaseTask ''x'') RUNNING (demo_world EXECUTE PENDING [2]))))"
    using b by (metis prod.collapse)
  have d: "analyze_future demo_env 2 ([], [], change_state (BaseTask ''x'') RUNNING (demo_world EXECUTE PENDING [2]))
     = (set_update [] [BaseTask ''x''], [],
        snd (handle_result demo_env (BaseTask ''x'') ex_EXECUTED (Failure (External ''boom'')) []
            (change_state (BaseTask ''x'') RUNNING (demo_world EXECUTE PENDING [2]))))"
    using successor_query_after_handling [where env = demo_env and fut = 2
        and w = "change_state (BaseTask ''x'') RUNNING (demo_world EXECUTE PENDING [2])" and node = "BaseTask ''x''" and event = ex_EXECUTED
        and result = "Failure (External ''boom'')" and failures = "[]" and ?failures1.0 = "[]"
        and ?w1.0 = "snd (handle_result demo_env (BaseTask ''x'') ex_EXECUTED (Failure (External ''boom'')) []
            (change_state (BaseTask ''x'') RUNNING (demo_world EXECUTE PENDING [2])))" and more_nodes = "[BaseTask ''x'']" and next_nodes = "[]"]
      a b' c
    by blast
  have e: "future_result esc_env 2 (esc_world EXECUTE) = Inl (External ''no such future'')"
    by (simp add: esc_env_def)
  have f: "analyze_future esc_env 2 ([], [], esc_world EXECUTE)
       = ([], [External ''no such future''], esc_world EXECUTE)"
    using successor_query_after_handling [where env = esc_env and fut = 2 and w = "esc_world EXECUTE"
        and e = "External ''no such future''" and failures = "[]" and next_nodes = "[]"] e
    by simp
  have d1: "fst (analyze_future demo_env 2 ([], [], change_state (BaseTask ''x'') RUNNING (demo_world EXECUTE PENDING [2]))) = [BaseTask ''x'']"
    and d2: "fst (snd (analyze_future demo_env 2 ([], [], change_state (BaseTask ''x'') RUNNING (demo_world EXECUTE PENDING [2])))) = []"
    unfolding d by (simp_all add: set_update_def set_add_def)
  show ?thesis
    using a b c d1 d2 e f by blast
qed

section \<open>Scheduling again\<close>

lemma loop_head_not_SCHEDULING: "fst (loop_head env not_done failures w) \<noteq> Some SCHEDULING"
proof -
  obtain emit g1 w1 where l: "loop_head env not_done failures w = (emit, g1, w1)"
    by (cases "loop_head env not_done failures w")
  from loop_head_shape [OF l] have "emit \<noteq> Some SCHEDULING"
    by (auto simp: is_terminal_def)
  with l show ?thesis by simp
qed

text \<open>
  C8, as the claim states it, fails. The demo flow is being reverted and the reversion
  of \<open>z\<close> fails. At the ninth marker the generator analyzes the future of \<open>x\<close>, which was
  scheduled in a later batch than \<open>z\<close> and resolves without error: the successor set is
  \<open>v\<close>, this pass records no failure, the flow is \<^verbatim>\<open>RUNNING\<close>, and yet no
  scheduling step is entered, because the failure of \<open>z\<close>, recorded two rounds before,
  is still in the list: the generator leaves the loop and raises it.
\<close>

theorem earlier_failure_blocks_scheduling_counterexample:
  "fst (snd (execute_iter demo_env None 9 (demo_world REVERT SUCCESS [14])))
     = At_ANALYZING [12] [] [External ''boom'']
   \<and> fst (analyze demo_env [12] [External ''boom'']
        (snd (snd (execute_iter demo_env None 9 (demo_world REVERT SUCCESS [14])))))
     = [BaseTask ''v'']
   \<and> fst (snd (analyze demo_env [12] [External ''boom'']
        (snd (snd (execute_iter demo_env None 9 (demo_world REVERT SUCCESS [14]))))))
     = [External ''boom'']
   \<and> is_running (snd (snd (analyze demo_env [12] [External ''boom'']
        (snd (snd (execute_iter demo_env None 9 (demo_world REVERT SUCCESS [14])))))))
   \<and> fst (execute_iter demo_env None 30 (demo_world REVERT SUCCESS [14]))
     = [RESUMING, SCHEDULING, WAITING, ANALYZING, SCHEDULING, WAITING, ANALYZING, WAITING, ANALYZING]
   \<and> fst (snd (execute_iter demo_env None 30 (demo_world REVERT SUCCESS [14])))
     = Raised (External ''boom'')"
  by code_simp

text \<open>
  C8, amended. After an analyzing step a new scheduling step is entered if and only if
  the accumulated successor set is non-empty and the list of failures accumulated so far
  in the run, which the analyzing step only ever extends, is empty and the flow state is
  \<^verbatim>\<open>RUNNING\<close>. The flow state is read again after the \<^verbatim>\<open>SCHEDULING\<close> marker,
  and the nodes are scheduled only if it is still \<^verbatim>\<open>RUNNING\<close>. In every other case
  the generator goes back to the test of the loop with the futures in flight as they
  are, and schedules nothing.
\<close>

theorem rescheduling_condition:
  assumes "analyze env resolved failures (interfere env ANALYZING w0) = (next_nodes, failures1, w1)"
  shows "(\<exists>new. failures1 = failures @ new)
   \<and> (fst (gen_next env timeout (At_ANALYZING resolved not_done failures, w0)) = Some SCHEDULING
        \<longleftrightarrow> next_nodes \<noteq> [] \<and> failures1 = [] \<and> is_running w1)
   \<and> (next_nodes \<noteq> [] \<and> failures1 = [] \<and> is_running w1 \<longrightarrow>
        gen_next env timeout (At_ANALYZING resolved not_done failures, w0)
          = (Some SCHEDULING, At_SCHEDULING next_nodes not_done failures1, w1))
   \<and> (\<not> (next_nodes \<noteq> [] \<and> failures1 = [] \<and> is_running w1) \<longrightarrow>
        gen_next env timeout (At_ANALYZING resolved not_done failures, w0)
          = loop_head env not_done failures1 w1)
   \<and> (is_running (interfere env SCHEDULING w1) \<longrightarrow>
        gen_next env timeout (At_SCHEDULING next_nodes not_done failures1, w1)
          = loop_head env
              (set_update not_done (fst (fst (schedule env next_nodes (interfere env SCHEDULING w1)))))
              (snd (fst (schedule env next_nodes (interfere env SCHEDULING w1))))
              (snd (schedule env next_nodes (interfere env SCHEDULING w1))))
   \<and> (\<not> is_running (interfere env SCHEDULING w1) \<longrightarrow>
        gen_next env timeout (At_SCHEDULING next_nodes not_done failures1, w1)
          = loop_head env not_done failures1 (interfere env SCHEDULING w1))"
proof (intro conjI)
  show "\<exists>new. failures1 = failures @ new"
    using assms by (rule analyze_failures)
  show "fst (gen_next env timeout (At_ANALYZING resolved not_done failures, w0)) = Some SCHEDULING
        \<longleftrightarrow> next_nodes \<noteq> [] \<and> failures1 = [] \<and> is_running w1"
    using assms loop_head_not_SCHEDULING [of env not_done failures1 w1]
    by (simp add: Let_def)
  show "next_nodes \<noteq> [] \<and> failures1 = [] \<and> is_running w1 \<longrightarrow>
        gen_next env timeout (At_ANALYZING resolved not_done failures, w0)
          = (Some SCHEDULING, At_SCHEDULING next_nodes not_done failures1, w1)"
    using assms by (simp add: Let_def)
  show "\<not> (next_nodes \<noteq> [] \<and> failures1 = [] \<and> is_running w1) \<longrightarrow>
        gen_next env timeout (At_ANALYZING resolved not_done failures, w0)
          = loop_head env not_done failures1 w1"
    using assms by (simp add: Let_def)
  show "is_running (interfere env SCHEDULING w1) \<longrightarrow>
        gen_next env timeout (At_SCHEDULING next_nodes not_done failures1, w1)
          = loop_head env
              (set_update not_done (fst (fst (schedule env next_nodes (interfere env SCHEDULING w1)))))
              (snd (fst (schedule env next_nodes (interfere env SCHEDULING w1))))
              (snd (schedule env next_nodes (interfere env SCHEDULING w1)))"
    by (simp add: Let_def split: prod.splits)
  show "\<not> is_running (interfere env SCHEDULING w1) \<longrightarrow>
        gen_next env timeout (At_SCHEDULING next_nodes not_done failures1, w1)
          = loop_head env not_done failures1 (interfere env SCHEDULING w1)"
    by (simp add: Let_def)
qed

theorem rescheduling_condition_witness:
  "fst (snd (execute_iter demo_env None 4 (demo_world EXECUTE PENDING []))) = At_ANALYZING [1] [4] []
   \<and> fst (analyze demo_env [1] [] (interfere demo_env ANALYZING
        (snd (snd (execute_iter demo_env None 4 (demo_world EXECUTE PENDING []))))))
     = [BaseTask ''x'']
   \<and> fst (snd (analyze demo_env [1] [] (interfere demo_env ANALYZING
        (snd (snd (execute_iter demo_env None 4 (demo_world EXECUTE PENDING [])))))))
     = []
   \<and> is_running (snd (snd (analyze demo_env [1] [] (interfere demo_env ANALYZING
        (snd (snd (execute_iter demo_env None 4 (demo_world EXECUTE PENDING []))))))))
   \<and> fst (gen_next demo_env None
        (At_ANALYZING [1] [4] [], snd (snd (execute_iter demo_env None 4 (demo_world EXECUTE PENDING [])))))
     = Some SCHEDULING
   \<and> fst (snd (gen_next demo_env None
        (At_ANALYZING [1] [4] [], snd (snd (execute_iter demo_env None 4 (demo_world EXECUTE PENDING []))))))
     = At_SCHEDULING [BaseTask ''x''] [4] []"
proof -
  define w4 where "w4 = snd (snd (execute_iter demo_env None 4 (demo_world EXECUTE PENDING [])))"
  define w5 where "w5 = snd (snd (analyze demo_env [1] [] (interfere demo_env ANALYZING w4)))"
  have g: "fst (snd (execute_iter demo_env None 4 (demo_world EXECUTE PENDING []))) = At_ANALYZING [1] [4] []"
    by code_simp
  have a1: "fst (analyze demo_env [1] [] (interfere demo_env ANALYZING w4)) = [BaseTask ''x'']"
    and a2: "fst (snd (analyze demo_env [1] [] (interfere demo_env ANALYZING w4))) = []"
    and a3: "is_running w5"
    unfolding w4_def w5_def by code_simp+
  have a: "analyze demo_env [1] [] (interfere demo_env ANALYZING w4) = ([BaseTask ''x''], [], w5)"
    using a1 a2 unfolding w5_def by (metis prod.collapse)
  from rescheduling_condition [OF a, of None "[4]"] a3
  have "gen_next demo_env None (At_ANALYZING [1] [4] [], w4)
          = (Some SCHEDULING, At_SCHEDULING [BaseTask ''x''] [4] [], w5)"
    by simp
  then have "fst (gen_next demo_env None (At_ANALYZING [1] [4] [], w4)) = Some SCHEDULING"
    and "fst (snd (gen_next demo_env None (At_ANALYZING [1] [4] [], w4))) = At_SCHEDULING [BaseTask ''x''] [4] []"
    by simp_all
  with g a1 a2 a3 show ?thesis
    unfolding w4_def w5_def by blast
qed

section \<open>Draining the futures in flight\<close>

lemma set_set_add: "set (set_add x xs) = insert x (set xs)"
  by (auto simp: set_add_def)

lemma set_set_update: "set (set_update xs ys) = set xs \<union> set ys"
  unfolding set_update_def by (induction ys arbitrary: xs) (auto simp: set_set_add)

lemma in_flight_after_loop: "after_loop env failures w = (emit, g1, w1) \<Longrightarrow> in_flight g1 = []"
  by (auto dest: after_loop_shape)

lemma in_flight_loop_head: "loop_head env not_done failures w = (emit, g1, w1) \<Longrightarrow> in_flight g1 = not_done"
  by (auto simp: loop_head_def split: if_splits dest: in_flight_after_loop)

lemma in_flight_At_ANALYZING:
  "gen_next env timeout (At_ANALYZING resolved not_done failures, w) = (emit, g1, w1) \<Longrightarrow>
     in_flight g1 = not_done"
  by (auto simp: Let_def split: prod.splits if_splits dest: in_flight_loop_head)

lemma in_flight_At_SCHEDULING:
  "gen_next env timeout (At_SCHEDULING next_nodes not_done failures, w) = (emit, g1, w1) \<Longrightarrow>
     set not_done \<subseteq> set (in_flight g1)"
  by (auto simp: Let_def set_set_update split: prod.splits if_splits dest!: in_flight_loop_head)

lemma in_flight_continues:
  assumes "gen_next env timeout (g, w) = (emit, g1, w1)" and "in_flight g \<noteq> []"
  shows "emit = Some WAITING \<or> emit = Some ANALYZING \<or> emit = Some SCHEDULING"
proof (cases g)
  case (At_WAITING nd fs)
  with assms(1) show ?thesis by (auto simp: Let_def split: prod.splits)
next
  case (At_ANALYZING d nd fs)
  from assms(1) [unfolded At_ANALYZING] have "in_flight g1 = nd"
    by (rule in_flight_At_ANALYZING)
  with assms(2) At_ANALYZING have nd: "in_flight g1 \<noteq> []"
    by simp
  from gen_next_shape [OF assms(1)] At_ANALYZING nd show ?thesis by auto
next
  case (At_SCHEDULING nn nd fs)
  from assms(1) [unfolded At_SCHEDULING] have "set nd \<subseteq> set (in_flight g1)"
    by (rule in_flight_At_SCHEDULING)
  with assms(2) At_SCHEDULING have nd: "in_flight g1 \<noteq> []"
    by auto
  from gen_next_shape [OF assms(1)] At_SCHEDULING nd show ?thesis by auto
qed (use assms in auto)

lemma in_flight_At_SCHEDULING_eq:
  "gen_next env timeout (At_SCHEDULING next_nodes not_done failures, w) = (emit, g1, w1) \<Longrightarrow>
     in_flight g1 =
       (if is_running (interfere env SCHEDULING w)
        then set_update not_done (fst (fst (schedule env next_nodes (interfere env SCHEDULING w))))
        else not_done)"
  by (auto simp: Let_def split: prod.splits if_splits dest!: in_flight_loop_head)

lemma in_flight_At_SCHEDULING_first_eq:
  "gen_next env timeout (At_SCHEDULING_first next_nodes, w) = (emit, g1, w1) \<Longrightarrow>
     in_flight g1 =
       (if is_running (interfere env SCHEDULING w)
        then fst (fst (schedule env next_nodes (interfere env SCHEDULING w)))
        else [])"
  by (auto simp: Let_def split: prod.splits if_splits dest!: in_flight_loop_head)

text \<open>In one step, every future in flight before it and every future scheduled in it is
  in flight afterwards, unless \<^verbatim>\<open>wait_for_any\<close> took it out.\<close>

lemma step_keeps_in_flight:
  assumes "gen_next env timeout (g, w) = (emit, g1, w1)"
  shows "set (in_flight g) \<union> set (step_scheduled env (g, w))
           \<subseteq> set (in_flight g1) \<union> set (step_resolved env timeout (g, w))"
proof (cases g)
  case (At_SCHEDULING_first nn)
  from assms [unfolded At_SCHEDULING_first] have "in_flight g1 =
       (if is_running (interfere env SCHEDULING w)
        then fst (fst (schedule env nn (interfere env SCHEDULING w))) else [])"
    by (rule in_flight_At_SCHEDULING_first_eq)
  with At_SCHEDULING_first show ?thesis by simp
next
  case (At_WAITING nd fs)
  with assms have "in_flight g1 =
      snd (fst (wait_for_any env nd (case timeout of None \<Rightarrow> WAITING_TIMEOUT | Some t \<Rightarrow> t)
                  (interfere env WAITING w)))"
    by (auto simp: Let_def split: prod.splits)
  with At_WAITING show ?thesis by auto
next
  case (At_ANALYZING d nd fs)
  from assms [unfolded At_ANALYZING] have "in_flight g1 = nd"
    by (rule in_flight_At_ANALYZING)
  with At_ANALYZING show ?thesis by simp
next
  case (At_SCHEDULING nn nd fs)
  from assms [unfolded At_SCHEDULING] have "in_flight g1 =
       (if is_running (interfere env SCHEDULING w)
        then set_update nd (fst (fst (schedule env nn (interfere env SCHEDULING w))))
        else nd)"
    by (rule in_flight_At_SCHEDULING_eq)
  with At_SCHEDULING show ?thesis by (simp add: set_set_update)
qed simp_all

lemma run_keeps_in_flight:
  "run env timeout n (g, w) = (ms, g2, w2) \<Longrightarrow>
     set (in_flight g) \<union> set (scheduled_upto env timeout n (g, w))
       \<subseteq> set (in_flight g2) \<union> set (resolved_upto env timeout n (g, w))"
proof (induction n arbitrary: g w ms)
  case 0
  then show ?case by simp
next
  case (Suc n)
  obtain emit g1 w1 where step: "gen_next env timeout (g, w) = (emit, g1, w1)"
    by (cases "gen_next env timeout (g, w)")
  note one = step_keeps_in_flight [OF step]
  show ?case
  proof (cases emit)
    case None
    with Suc.prems step have "g2 = g1" by simp
    with one step None show ?thesis by auto
  next
    case (Some m)
    obtain ms1 g3 w3 where rest: "run env timeout n (g1, w1) = (ms1, g3, w3)"
      by (cases "run env timeout n (g1, w1)")
    with Suc.prems step Some have "g3 = g2" "w3 = w2" by simp_all
    with rest have "run env timeout n (g1, w1) = (ms1, g2, w2)" by simp
    from Suc.IH [OF this]
    have "set (in_flight g1) \<union> set (scheduled_upto env timeout n (g1, w1))
            \<subseteq> set (in_flight g2) \<union> set (resolved_upto env timeout n (g1, w1))" .
    with one step Some show ?thesis by auto
  qed
qed

text \<open>
  C1. The generator drains what is in flight. Resumed at \<^verbatim>\<open>WAITING\<close>, it hands
  its whole set \<^verbatim>\<open>not_done\<close> to \<^verbatim>\<open>wait_for_any\<close> and keeps, as the new
  \<^verbatim>\<open>not_done\<close>, exactly what that call reports as not done. The analyzing step
  leaves \<^verbatim>\<open>not_done\<close> as it is. A scheduling step under a \<^verbatim>\<open>RUNNING\<close> flow
  puts every future \<^verbatim>\<open>_schedule\<close> returns into \<^verbatim>\<open>not_done\<close>, also when the
  batch recorded a failure, and removes none; under any other flow state it schedules
  nothing and leaves \<^verbatim>\<open>not_done\<close> as it is (at the first scheduling step nothing
  is in flight then). The test of the loop yields \<^verbatim>\<open>WAITING\<close> whenever
  \<^verbatim>\<open>not_done\<close> is not empty, whatever the flow state and the failures; so with a
  future in flight the generator neither returns nor raises nor yields a terminal
  marker. Along a run, every future that was in flight or has been scheduled is still in
  flight unless \<^verbatim>\<open>wait_for_any\<close> took it out; and when the generator has left the
  loop, \<^verbatim>\<open>wait_for_any\<close> has taken out every future that the run scheduled.
\<close>

theorem drain_in_flight:
  "gen_next env timeout (At_WAITING not_done failures, w)
     = (Some ANALYZING,
        At_ANALYZING
          (fst (fst (wait_for_any env not_done (case timeout of None \<Rightarrow> WAITING_TIMEOUT | Some t \<Rightarrow> t)
                       (interfere env WAITING w))))
          (snd (fst (wait_for_any env not_done (case timeout of None \<Rightarrow> WAITING_TIMEOUT | Some t \<Rightarrow> t)
                       (interfere env WAITING w))))
          failures,
        snd (wait_for_any env not_done (case timeout of None \<Rightarrow> WAITING_TIMEOUT | Some t \<Rightarrow> t)
               (interfere env WAITING w)))
 \<and> (gen_next env timeout (At_ANALYZING resolved not_done failures, w) = (emit, g1, w1) \<longrightarrow>
      in_flight g1 = not_done)
 \<and> (gen_next env timeout (At_SCHEDULING next_nodes not_done failures, w) = (emit, g1, w1) \<longrightarrow>
      set not_done \<subseteq> set (in_flight g1))
 \<and> (is_running (interfere env SCHEDULING w) \<and>
    gen_next env timeout (At_SCHEDULING next_nodes not_done failures, w) = (emit, g1, w1) \<longrightarrow>
      in_flight g1 = set_update not_done (fst (fst (schedule env next_nodes (interfere env SCHEDULING w))))
    \<and> set (in_flight g1) = set not_done \<union> set (fst (fst (schedule env next_nodes (interfere env SCHEDULING w)))))
 \<and> (is_running (interfere env SCHEDULING w) \<and>
    gen_next env timeout (At_SCHEDULING_first next_nodes, w) = (emit, g1, w1) \<longrightarrow>
      in_flight g1 = fst (fst (schedule env next_nodes (interfere env SCHEDULING w))))
 \<and> (\<not> is_running (interfere env SCHEDULING w) \<longrightarrow>
      gen_next env timeout (At_SCHEDULING next_nodes not_done failures, w)
        = loop_head env not_done failures (interfere env SCHEDULING w)
    \<and> gen_next env timeout (At_SCHEDULING_first next_nodes, w)
        = loop_head env [] [] (interfere env SCHEDULING w))
 \<and> (not_done \<noteq> [] \<longrightarrow> loop_head env not_done failures w = (Some WAITING, At_WAITING not_done failures, w))
 \<and> (gen_next env timeout (g, w) = (emit, g1, w1) \<and> in_flight g \<noteq> [] \<longrightarrow>
      emit = Some WAITING \<or> emit = Some ANALYZING \<or> emit = Some SCHEDULING)
 \<and> (run env timeout n (g, w) = (ms, g2, w2) \<longrightarrow>
      set (in_flight g) \<union> set (scheduled_upto env timeout n (g, w))
        \<subseteq> set (in_flight g2) \<union> set (resolved_upto env timeout n (g, w)))
 \<and> (execute_iter env timeout n w = (ms, g2, w2) \<and>
    (g2 = At_terminal \<or> g2 = Finished \<or> (\<exists>e. g2 = Raised e)) \<longrightarrow>
      set (scheduled_upto env timeout n (Created, w)) \<subseteq> set (resolved_upto env timeout n (Created, w)))"
proof -
  have c1: "gen_next env timeout (At_WAITING not_done failures, w)
     = (Some ANALYZING,
        At_ANALYZING
          (fst (fst (wait_for_any env not_done (case timeout of None \<Rightarrow> WAITING_TIMEOUT | Some t \<Rightarrow> t)
                       (interfere env WAITING w))))
          (snd (fst (wait_for_any env not_done (case timeout of None \<Rightarrow> WAITING_TIMEOUT | Some t \<Rightarrow> t)
                       (interfere env WAITING w))))
          failures,
        snd (wait_for_any env not_done (case timeout of None \<Rightarrow> WAITING_TIMEOUT | Some t \<Rightarrow> t)
               (interfere env WAITING w)))"
    by (simp add: Let_def split: prod.splits)
  have c2: "in_flight g1 = not_done"
    if "gen_next env timeout (At_ANALYZING resolved not_done failures, w) = (emit, g1, w1)"
    using that by (rule in_flight_At_ANALYZING)
  have c3: "set not_done \<subseteq> set (in_flight g1)"
    if "gen_next env timeout (At_SCHEDULING next_nodes not_done failures, w) = (emit, g1, w1)"
    using that by (rule in_flight_At_SCHEDULING)
  have c4: "in_flight g1 = set_update not_done (fst (fst (schedule env next_nodes (interfere env SCHEDULING w))))
    \<and> set (in_flight g1) = set not_done \<union> set (fst (fst (schedule env next_nodes (interfere env SCHEDULING w))))"
    if "is_running (interfere env SCHEDULING w) \<and>
        gen_next env timeout (At_SCHEDULING next_nodes not_done failures, w) = (emit, g1, w1)"
    using that in_flight_At_SCHEDULING_eq [of env timeout next_nodes not_done failures w emit g1 w1]
    by (simp add: set_set_update)
  have c5: "in_flight g1 = fst (fst (schedule env next_nodes (interfere env SCHEDULING w)))"
    if "is_running (interfere env SCHEDULING w) \<and>
        gen_next env timeout (At_SCHEDULING_first next_nodes, w) = (emit, g1, w1)"
    using that in_flight_At_SCHEDULING_first_eq [of env timeout next_nodes w emit g1 w1]
    by simp
  have c6: "gen_next env timeout (At_SCHEDULING next_nodes not_done failures, w)
        = loop_head env not_done failures (interfere env SCHEDULING w)
    \<and> gen_next env timeout (At_SCHEDULING_first next_nodes, w)
        = loop_head env [] [] (interfere env SCHEDULING w)"
    if "\<not> is_running (interfere env SCHEDULING w)"
    using that by (simp add: Let_def)
  have c7: "loop_head env not_done failures w = (Some WAITING, At_WAITING not_done failures, w)"
    if "not_done \<noteq> []"
    using that by (simp add: loop_head_def)
  have c8: "emit = Some WAITING \<or> emit = Some ANALYZING \<or> emit = Some SCHEDULING"
    if "gen_next env timeout (g, w) = (emit, g1, w1) \<and> in_flight g \<noteq> []"
    using that in_flight_continues by blast
  have c9: "set (in_flight g) \<union> set (scheduled_upto env timeout n (g, w))
        \<subseteq> set (in_flight g2) \<union> set (resolved_upto env timeout n (g, w))"
    if "run env timeout n (g, w) = (ms, g2, w2)"
    using that by (rule run_keeps_in_flight)
  have c10: "set (scheduled_upto env timeout n (Created, w)) \<subseteq> set (resolved_upto env timeout n (Created, w))"
    if "execute_iter env timeout n w = (ms, g2, w2) \<and>
        (g2 = At_terminal \<or> g2 = Finished \<or> (\<exists>e. g2 = Raised e))"
  proof -
    from that have r: "run env timeout n (Created, w) = (ms, g2, w2)" and "in_flight g2 = []"
      by (auto simp: execute_iter_def)
    with run_keeps_in_flight [OF r] show ?thesis by simp
  qed
  from c1 c2 c3 c4 c5 c6 c7 c8 c9 c10 show ?thesis
    by (intro conjI impI) blast+
qed

theorem drain_in_flight_witness:
  "fst (snd (execute_iter suspending_env None 4 (demo_world EXECUTE PENDING []))) = At_ANALYZING [1] [4] []
   \<and> fst (gen_next suspending_env None
        (At_ANALYZING [1] [4] [], snd (snd (execute_iter suspending_env None 4 (demo_world EXECUTE PENDING [])))))
     = Some WAITING
   \<and> fst (snd (gen_next suspending_env None
        (At_ANALYZING [1] [4] [], snd (snd (execute_iter suspending_env None 4 (demo_world EXECUTE PENDING []))))))
     = At_WAITING [4] []
   \<and> \<not> is_running (snd (snd (gen_next suspending_env None
        (At_ANALYZING [1] [4] [], snd (snd (execute_iter suspending_env None 4 (demo_world EXECUTE PENDING [])))))))
   \<and> in_flight (At_WAITING [4] []) = [4]
   \<and> fst (execute_iter suspending_env None 30 (demo_world EXECUTE PENDING []))
     = [RESUMING, SCHEDULING, WAITING, ANALYZING, WAITING, ANALYZING, SUSPENDED]
   \<and> fst (snd (execute_iter suspending_env None 30 (demo_world EXECUTE PENDING []))) = Finished
   \<and> scheduled_upto suspending_env None 30 (Created, demo_world EXECUTE PENDING []) = [1, 4]
   \<and> resolved_upto suspending_env None 30 (Created, demo_world EXECUTE PENDING []) = [1, 4]
   \<and> is_running (interfere demo_env SCHEDULING
        (snd (snd (execute_iter demo_env None 5 (demo_world EXECUTE PENDING [])))))
   \<and> fst (snd (execute_iter demo_env None 5 (demo_world EXECUTE PENDING [])))
     = At_SCHEDULING [BaseTask ''x''] [4] []
   \<and> fst (fst (schedule demo_env [BaseTask ''x''] (interfere demo_env SCHEDULING
        (snd (snd (execute_iter demo_env None 5 (demo_world EXECUTE PENDING []))))))) = [2]
   \<and> in_flight (fst (snd (gen_next demo_env None
        (At_SCHEDULING [BaseTask ''x''] [4] [],
         snd (snd (execute_iter demo_env None 5 (demo_world EXECUTE PENDING []))))))) = [4, 2]
   \<and> scheduled_upto demo_env None 30 (Created, demo_world EXECUTE PENDING []) = [1, 4, 2, 3]
   \<and> resolved_upto demo_env None 30 (Created, demo_world EXECUTE PENDING []) = [1, 4, 2, 3]"
proof -
  define w4 where "w4 = snd (snd (execute_iter suspending_env None 4 (demo_world EXECUTE PENDING [])))"
  define v5 where "v5 = snd (snd (execute_iter demo_env None 5 (demo_world EXECUTE PENDING [])))"
  have g4: "fst (snd (execute_iter suspending_env None 4 (demo_world EXECUTE PENDING []))) = At_ANALYZING [1] [4] []"
    by code_simp
  have e1: "fst (gen_next suspending_env None (At_ANALYZING [1] [4] [], w4)) = Some WAITING"
    unfolding w4_def by code_simp
  have nr: "\<not> is_running (snd (snd (gen_next suspending_env None (At_ANALYZING [1] [4] [], w4))))"
    unfolding w4_def by code_simp
  have all: "fst (execute_iter suspending_env None 30 (demo_world EXECUTE PENDING []))
     = [RESUMING, SCHEDULING, WAITING, ANALYZING, WAITING, ANALYZING, SUSPENDED]"
    by code_simp
  have fin: "fst (snd (execute_iter suspending_env None 30 (demo_world EXECUTE PENDING []))) = Finished"
    by code_simp
  have sch: "scheduled_upto suspending_env None 30 (Created, demo_world EXECUTE PENDING []) = [1, 4]"
    by code_simp
  have res: "resolved_upto suspending_env None 30 (Created, demo_world EXECUTE PENDING []) = [1, 4]"
    by code_simp
  have sch2: "scheduled_upto demo_env None 30 (Created, demo_world EXECUTE PENDING []) = [1, 4, 2, 3]"
    by code_simp
  have res2: "resolved_upto demo_env None 30 (Created, demo_world EXECUTE PENDING []) = [1, 4, 2, 3]"
    by code_simp
  have run5: "is_running (interfere demo_env SCHEDULING v5)"
    unfolding v5_def by code_simp
  have g5: "fst (snd (execute_iter demo_env None 5 (demo_world EXECUTE PENDING [])))
     = At_SCHEDULING [BaseTask ''x''] [4] []"
    by code_simp
  have s5: "fst (fst (schedule demo_env [BaseTask ''x''] (interfere demo_env SCHEDULING v5))) = [2]"
    unfolding v5_def by code_simp
  obtain emit g1 w1 where s: "gen_next suspending_env None (At_ANALYZING [1] [4] [], w4) = (emit, g1, w1)"
    by (cases "gen_next suspending_env None (At_ANALYZING [1] [4] [], w4)")
  note d = drain_in_flight [where env = suspending_env and timeout = None and resolved = "[1]"
      and not_done = "[4]" and failures = "[]" and w = w4 and emit = emit and ?g1.0 = g1 and ?w1.0 = w1
      and g = "At_ANALYZING [1] [4] []"]
  from d s have fl: "in_flight g1 = [4]" by blast
  have e2: "fst (snd (gen_next suspending_env None (At_ANALYZING [1] [4] [], w4))) = At_WAITING [4] []"
    unfolding w4_def by code_simp
  with s fl have i4: "in_flight (At_WAITING [4] []) = [4]"
    by simp
  obtain emit' g1' w1' where s': "gen_next demo_env None (At_SCHEDULING [BaseTask ''x''] [4] [], v5) = (emit', g1', w1')"
    by (cases "gen_next demo_env None (At_SCHEDULING [BaseTask ''x''] [4] [], v5)")
  note d' = drain_in_flight [where env = demo_env and timeout = None and next_nodes = "[BaseTask ''x'']"
      and not_done = "[4]" and failures = "[]" and w = v5 and emit = emit' and ?g1.0 = g1' and ?w1.0 = w1']
  from d' s' run5 have "in_flight g1' = set_update [4] (fst (fst (schedule demo_env [BaseTask ''x''] (interfere demo_env SCHEDULING v5))))"
    by blast
  with s5 have "in_flight g1' = [4, 2]"
    by (simp add: set_update_def set_add_def)
  with s' have i5: "in_flight (fst (snd (gen_next demo_env None (At_SCHEDULING [BaseTask ''x''] [4] [], v5)))) = [4, 2]"
    by simp
  show ?thesis
    using g4 e1 e2 nr i4 all fin sch res run5 g5 s5 i5 sch2 res2
    unfolding w4_def v5_def by simp
qed

section \<open>One future per atom\<close>

lemma distinct_set_add: "distinct xs \<Longrightarrow> distinct (set_add x xs)"
  by (simp add: set_add_def)

lemma distinct_set_update: "distinct xs \<Longrightarrow> distinct (set_update xs ys)"
  unfolding set_update_def by (induction ys arbitrary: xs) (simp_all add: distinct_set_add)

lemma set_update_append:
  "distinct ys \<Longrightarrow> set xs \<inter> set ys = {} \<Longrightarrow> set_update xs ys = xs @ ys"
  unfolding set_update_def
proof (induction ys arbitrary: xs)
  case Nil
  show ?case by simp
next
  case (Cons y ys)
  from Cons.prems have "y \<notin> set xs" by auto
  then have a: "set_add y xs = xs @ [y]" by (simp add: set_add_def)
  from Cons.prems have "distinct ys" "set (xs @ [y]) \<inter> set ys = {}" by auto
  from Cons.IH [OF this] a show ?case by simp
qed

lemma distinct_in_flight_nodes_fold:
  "distinct acc \<Longrightarrow>
     distinct (fold (\<lambda>node next_nodes.
                 if get_state node w = RUNNING \<or> get_state node w = REVERTING
                 then set_add node next_nodes else next_nodes) nodes acc)"
  by (induction nodes arbitrary: acc) (simp_all add: distinct_set_add)

lemma distinct_prepare_flow_for_resume:
  "prepare_flow_for_resume env w = (Inr next_nodes, w1) \<Longrightarrow> distinct next_nodes"
  by (auto simp: prepare_flow_for_resume_def in_flight_nodes_def distinct_in_flight_nodes_fold
      split: prod.splits sum.splits)

lemma distinct_analyze_future:
  "distinct next_nodes \<Longrightarrow> distinct (fst (analyze_future env fut (next_nodes, failures, w)))"
  by (auto simp: analyze_future_def distinct_set_update split: sum.splits prod.splits)

lemma distinct_fold_analyze_future:
  "distinct (fst acc) \<Longrightarrow> distinct (fst (fold (analyze_future env) resolved acc))"
proof (induction resolved arbitrary: acc)
  case Nil
  then show ?case by simp
next
  case (Cons fut resolved)
  obtain nn fs w where acc: "acc = (nn, fs, w)" by (cases acc)
  with Cons.prems have "distinct (fst (analyze_future env fut acc))"
    by (simp add: distinct_analyze_future)
  from Cons.IH [OF this] show ?case by simp
qed

lemma distinct_analyze: "distinct (fst (analyze env resolved failures w))"
  unfolding analyze_def by (rule distinct_fold_analyze_future) simp

lemma schedule_loop_owned:
  assumes owned: "\<And>node w fut w1. schedule_node env node w = (Inr fut, w1) \<Longrightarrow> owner fut = node"
  shows "distinct nodes \<Longrightarrow> distinct (map owner futures) \<Longrightarrow>
         (\<forall>fut \<in> set futures. owner fut \<notin> set nodes) \<Longrightarrow>
         schedule_loop env nodes futures w = ((futs, fs), w1) \<Longrightarrow>
         distinct (map owner futs) \<and> owner ` set futs \<subseteq> owner ` set futures \<union> set nodes"
proof (induction nodes arbitrary: futures w)
  case Nil
  then show ?case by auto
next
  case (Cons node nodes)
  obtain r w2 where sn: "schedule_node env node w = (r, w2)"
    by (cases "schedule_node env node w")
  show ?case
  proof (cases r)
    case (Inl e)
    with sn Cons.prems show ?thesis by auto
  next
    case (Inr fut)
    with sn owned have o: "owner fut = node" by blast
    with Cons.prems(3) have new: "fut \<notin> set futures" by auto
    then have sa: "set_add fut futures = futures @ [fut]" by (simp add: set_add_def)
    from Cons.prems(3) o have nin: "node \<notin> owner ` set futures" by auto
    have d: "distinct (map owner (set_add fut futures))"
      using Cons.prems(2) nin o by (simp add: sa)
    have dis: "\<forall>f \<in> set (set_add fut futures). owner f \<notin> set nodes"
      using Cons.prems(1,3) o by (auto simp: sa)
    have rest: "schedule_loop env nodes (set_add fut futures) w2 = ((futs, fs), w1)"
      using Cons.prems(4) sn Inr by simp
    from Cons.prems(1) have dn: "distinct nodes" by simp
    from Cons.IH [OF dn d dis rest] o show ?thesis
      by (auto simp: sa)
  qed
qed

lemma schedule_owned:
  assumes owned: "\<And>node w fut w1. schedule_node env node w = (Inr fut, w1) \<Longrightarrow> owner fut = node"
    and "distinct nodes" and "schedule env nodes w = ((futs, fs), w1)"
  shows "distinct (map owner futs) \<and> owner ` set futs \<subseteq> set nodes"
  using schedule_loop_owned [of env owner nodes "[]" w futs fs w1] assms
  by (simp add: schedule_def)

lemma one_future_loop_head:
  "distinct (map owner nd) \<Longrightarrow> loop_head env nd fs w = (emit, g1, w1) \<Longrightarrow> one_future_per_atom owner g1"
  by (auto simp: loop_head_def split: if_splits dest!: after_loop_shape)

lemma one_future_step:
  assumes owned: "\<And>node w fut w1. schedule_node env node w = (Inr fut, w1) \<Longrightarrow> owner fut = node"
    and waits: "\<And>nd t w. distinct nd \<Longrightarrow>
        distinct (snd (fst (wait_for_any env nd t w))) \<and> set (snd (fst (wait_for_any env nd t w))) \<subseteq> set nd"
    and inv: "one_future_per_atom owner g"
    and excl: "analyzer_excludes_in_flight env timeout owner (Suc n) (g, w)"
    and step: "gen_next env timeout (g, w) = (emit, g1, w1)"
  shows "one_future_per_atom owner g1"
proof (cases g)
  case Created
  with step show ?thesis by auto
next
  case At_RESUMING
  with step show ?thesis
    by (auto simp: Let_def distinct_set_update split: prod.splits sum.splits
        dest: distinct_prepare_flow_for_resume)
next
  case (At_SCHEDULING_first nn)
  show ?thesis
  proof (cases "is_running (interfere env SCHEDULING w)")
    case True
    obtain nd fs w2 where s: "schedule env nn (interfere env SCHEDULING w) = ((nd, fs), w2)"
      by (cases "schedule env nn (interfere env SCHEDULING w)") auto
    from inv At_SCHEDULING_first have "distinct nn" by simp
    from schedule_owned [of env owner nn, OF owned this s] have "distinct (map owner nd)" by simp
    moreover from step At_SCHEDULING_first True s have "loop_head env nd fs w2 = (emit, g1, w1)"
      by (simp add: Let_def)
    ultimately show ?thesis by (rule one_future_loop_head)
  next
    case False
    with step At_SCHEDULING_first have "loop_head env [] [] (interfere env SCHEDULING w) = (emit, g1, w1)"
      by (simp add: Let_def)
    then show ?thesis by (intro one_future_loop_head [of owner "[]"]) simp_all
  qed
next
  case (At_WAITING nd fs)
  from inv At_WAITING have d: "distinct nd" and i: "inj_on owner (set nd)"
    by (simp_all add: distinct_map)
  define t where "t = (case timeout of None \<Rightarrow> WAITING_TIMEOUT | Some t \<Rightarrow> t)"
  define nd1 where "nd1 = snd (fst (wait_for_any env nd t (interfere env WAITING w)))"
  from waits [OF d, of t "interfere env WAITING w"] have "distinct nd1" "set nd1 \<subseteq> set nd"
    by (simp_all add: nd1_def)
  with i have "distinct (map owner nd1)"
    by (auto simp: distinct_map intro: inj_on_subset)
  moreover from step At_WAITING have "\<exists>resolved. g1 = At_ANALYZING resolved nd1 fs"
    by (auto simp: Let_def nd1_def t_def split: prod.splits)
  ultimately show ?thesis by auto
next
  case (At_ANALYZING resolved nd fs)
  obtain nn fs1 w2 where a: "analyze env resolved fs (interfere env ANALYZING w) = (nn, fs1, w2)"
    by (cases "analyze env resolved fs (interfere env ANALYZING w)")
  from inv At_ANALYZING have d: "distinct (map owner nd)" by simp
  from distinct_analyze [of env resolved fs "interfere env ANALYZING w"] a have dn: "distinct nn" by simp
  from excl At_ANALYZING a have ex: "\<forall>fut \<in> set nd. owner fut \<notin> set nn" by simp
  show ?thesis
  proof (cases "nn \<noteq> [] \<and> fs1 = [] \<and> is_running w2")
    case True
    with step At_ANALYZING a have "g1 = At_SCHEDULING nn nd fs1" by (simp add: Let_def)
    with d dn ex show ?thesis by simp
  next
    case False
    with step At_ANALYZING a have "loop_head env nd fs1 w2 = (emit, g1, w1)"
      by (auto simp: Let_def)
    with d show ?thesis by (rule one_future_loop_head)
  qed
next
  case (At_SCHEDULING nn nd fs)
  from inv At_SCHEDULING have d: "distinct (map owner nd)" and dn: "distinct nn"
    and ex: "\<forall>fut \<in> set nd. owner fut \<notin> set nn"
    by simp_all
  show ?thesis
  proof (cases "is_running (interfere env SCHEDULING w)")
    case True
    obtain more fs1 w2 where s: "schedule env nn (interfere env SCHEDULING w) = ((more, fs1), w2)"
      by (cases "schedule env nn (interfere env SCHEDULING w)") auto
    from schedule_owned [of env owner nn, OF owned dn s]
    have dm: "distinct (map owner more)" and sub: "owner ` set more \<subseteq> set nn" by simp_all
    from ex sub have disj: "owner ` set nd \<inter> owner ` set more = {}" by auto
    then have "set nd \<inter> set more = {}" by auto
    moreover from dm have "distinct more" by (simp add: distinct_map)
    ultimately have su: "set_update nd more = nd @ more" by (simp add: set_update_append)
    from d dm disj have "distinct (map owner (set_update nd more))" by (simp add: su)
    moreover from step At_SCHEDULING True s have "loop_head env (set_update nd more) fs1 w2 = (emit, g1, w1)"
      by (simp add: Let_def)
    ultimately show ?thesis by (rule one_future_loop_head)
  next
    case False
    with step At_SCHEDULING have "loop_head env nd fs (interfere env SCHEDULING w) = (emit, g1, w1)"
      by (simp add: Let_def)
    with d show ?thesis by (rule one_future_loop_head)
  qed
next
  case At_terminal
  with step show ?thesis by auto
next
  case Finished
  with step show ?thesis by auto
next
  case (Raised e)
  with step show ?thesis by auto
qed

lemma one_future_run:
  assumes owned: "\<And>node w fut w1. schedule_node env node w = (Inr fut, w1) \<Longrightarrow> owner fut = node"
    and waits: "\<And>nd t w. distinct nd \<Longrightarrow>
        distinct (snd (fst (wait_for_any env nd t w))) \<and> set (snd (fst (wait_for_any env nd t w))) \<subseteq> set nd"
  shows "analyzer_excludes_in_flight env timeout owner n (g, w) \<Longrightarrow> one_future_per_atom owner g \<Longrightarrow>
         k \<le> n \<Longrightarrow> one_future_per_atom owner (fst (snd (run env timeout k (g, w))))"
proof (induction n arbitrary: k g w)
  case 0
  then show ?case by simp
next
  case (Suc n)
  show ?case
  proof (cases k)
    case 0
    with Suc.prems show ?thesis by simp
  next
    case (Suc k1)
    obtain emit g1 w1 where step: "gen_next env timeout (g, w) = (emit, g1, w1)"
      by (cases "gen_next env timeout (g, w)")
    have inv1: "one_future_per_atom owner g1"
      using owned waits Suc.prems(2) Suc.prems(1) step by (rule one_future_step)
    show ?thesis
    proof (cases emit)
      case None
      with step Suc inv1 show ?thesis by simp
    next
      case (Some m)
      from Suc.prems(1) step have e1: "analyzer_excludes_in_flight env timeout owner n (g1, w1)"
        by simp
      from Suc.prems(3) Suc have "k1 \<le> n" by simp
      from Suc.IH [OF e1 inv1 this] step Some Suc show ?thesis
        by (auto split: prod.splits)
    qed
  qed
qed

lemma one_future_in_flight: "one_future_per_atom owner g \<Longrightarrow> distinct (map owner (in_flight g))"
  by (cases g) simp_all

text \<open>
  C5. Let every future that scheduling a node returns be owned by that node, let
  \<^verbatim>\<open>wait_for_any\<close> report as not done a duplicate-free part of the set it was
  given, and let the analyzer, at every analyzing step of the first \<open>n\<close> steps of a run,
  report no node that owns a future still in \<^verbatim>\<open>not_done\<close>. Then at every point of
  these \<open>n\<close> steps no two futures in \<^verbatim>\<open>not_done\<close> have the same owner: no atom has
  two unresolved futures, and no node is scheduled while a future of its own is in
  \<^verbatim>\<open>not_done\<close>.
\<close>

theorem at_most_one_future_per_atom:
  assumes "\<forall>node w fut w1. schedule_node env node w = (Inr fut, w1) \<longrightarrow> owner fut = node"
    and "\<forall>nd t w. distinct nd \<longrightarrow>
           distinct (snd (fst (wait_for_any env nd t w))) \<and> set (snd (fst (wait_for_any env nd t w))) \<subseteq> set nd"
    and "analyzer_excludes_in_flight env timeout owner n (Created, w)"
    and "k \<le> n"
  shows "distinct (map owner (in_flight (fst (snd (execute_iter env timeout k w)))))
       \<and> one_future_per_atom owner (fst (snd (execute_iter env timeout k w)))"
proof -
  have "one_future_per_atom owner (fst (snd (run env timeout k (Created, w))))"
    using assms by (intro one_future_run [where n = n]) auto
  then show ?thesis
    by (simp add: execute_iter_def one_future_in_flight)
qed

theorem at_most_one_future_per_atom_witness:
  "analyzer_excludes_in_flight demo_env None demo_atom 30 (Created, demo_world EXECUTE PENDING [])
   \<and> in_flight (fst (snd (execute_iter demo_env None 6 (demo_world EXECUTE PENDING [])))) = [4, 2]
   \<and> map demo_atom [4, 2] = [BaseTask ''z'', BaseTask ''x'']
   \<and> distinct (map demo_atom (in_flight (fst (snd (execute_iter demo_env None 6 (demo_world EXECUTE PENDING []))))))"
proof -
  have owned: "\<forall>node w fut w1. schedule_node demo_env node w = (Inr fut, w1) \<longrightarrow> demo_atom fut = node"
  proof (intro allI impI)
    fix node :: atom and w :: "nat list world" and fut w1
    assume s: "schedule_node demo_env node w = (Inr fut, w1)"
    show "demo_atom fut = node"
    proof (cases node)
      case (BaseTask n)
      with s have "node \<in> set demo_nodes" and "fut = demo_id node \<or> fut = demo_id node + 10"
        by (auto simp: schedule_node_def schedule_task_def demo_env_def Let_def split: if_splits)
      then show ?thesis
        by (auto simp: demo_nodes_def demo_id_def demo_atom_def)
    next
      case (Retry n)
      with s show ?thesis
        by (auto simp: schedule_node_def schedule_retry_def demo_env_def Let_def
            split: if_splits prod.splits sum.splits)
    next
      case (UnknownNode n)
      with s show ?thesis by (simp add: schedule_node_def)
    qed
  qed
  have waits: "\<forall>nd t w. distinct nd \<longrightarrow>
      distinct (snd (fst (wait_for_any demo_env nd t w))) \<and> set (snd (fst (wait_for_any demo_env nd t w))) \<subseteq> set nd"
    by (auto simp: demo_env_def dest: in_set_dropD)
  have excl: "analyzer_excludes_in_flight demo_env None demo_atom 30 (Created, demo_world EXECUTE PENDING [])"
    by code_simp
  have six: "(6::nat) \<le> 30" by simp
  have fl: "in_flight (fst (snd (execute_iter demo_env None 6 (demo_world EXECUTE PENDING [])))) = [4, 2]"
    by code_simp
  have ow: "map demo_atom [4, 2] = [BaseTask ''z'', BaseTask ''x'']"
    by (simp add: demo_atom_def)
  from at_most_one_future_per_atom [OF owned waits excl six]
  have "distinct (map demo_atom (in_flight (fst (snd (execute_iter demo_env None 6 (demo_world EXECUTE PENDING []))))))"
    by blast
  with excl fl ow show ?thesis by blast
qed

end
